theory Spec2Isabelle
  imports Main
begin

section \<open>The rule \<open>indent-binary-ops\<close>: data supplied by the host\<close>

text \<open>
  The rule reads an immutable token stream and syntax tree.  A position is a 1-based line
  and a 0-based column; a token carries its category, its text, its character range and
  the positions of its start and end.  A JavaScript string is modelled as a list of
  characters, each standing for a code unit below 256; the members of the class \<open>\s\<close>
  in that range are the ASCII white space and the no-break space.
\<close>

record position =
  line :: nat
  column :: nat

record token =
  tok_type :: string
  tok_value :: string
  tok_range :: "nat \<times> nat"
  tok_start :: position
  tok_end :: position

datatype node =
  Node (node_type: string) (node_range: "nat \<times> nat")
       (node_start: position) (node_end: position) (node_parent: "node option")

text \<open>
  \<open>sourceCode.tokensAndComments\<close> is the merged stream of tokens and comments in source
  order, \<open>sourceCode.lines\<close> the text of each line.  \<open>sourceCode.tokens\<close> is the same
  stream without the comments, which the host marks by their category.
\<close>

record sourceCode =
  tokensAndComments :: "token list"
  lines :: "string list"

definition isComment :: "token \<Rightarrow> bool" where
  "isComment t = (tok_type t \<in> set [''Block'', ''Line'', ''Shebang''])"

definition tokens :: "sourceCode \<Rightarrow> token list" where
  "tokens sc = filter (\<lambda>t. \<not> isComment t) (tokensAndComments sc)"

datatype error = TypeError

text \<open>
  Modelled from the spec: the host's lookups \<open>getFirstToken\<close>, \<open>getTokenBefore\<close> and
  \<open>getIndexFromLoc\<close> are not part of the rule's source.  The spec names them as
  ``first token of a node'', ``token immediately before a given token or node'' and
  ``conversion from a (line, column) location to a character offset''.  As in the host,
  a lookup goes from a start offset to an index of the token array: \<open>tokenIndexAt\<close> is
  the index of the first token starting at or after the offset, and the token before is
  the one at the preceding index, if any.  Offsets count the characters of the lines and
  one line feed after each line but the last.
\<close>

definition tokenIndexAt :: "sourceCode \<Rightarrow> nat \<Rightarrow> nat" where
  "tokenIndexAt sc pos = length (takeWhile (\<lambda>t. fst (tok_range t) < pos) (tokens sc))"

definition getFirstToken :: "sourceCode \<Rightarrow> node \<Rightarrow> token option" where
  "getFirstToken sc n =
     (let i = tokenIndexAt sc (fst (node_range n)) in
      if i < length (tokens sc) \<and> snd (tok_range (tokens sc ! i)) \<le> snd (node_range n)
      then Some (tokens sc ! i) else None)"

definition getTokenBefore :: "sourceCode \<Rightarrow> nat \<times> nat \<Rightarrow> token option" where
  "getTokenBefore sc r =
     (let i = tokenIndexAt sc (fst r) in
      if i = 0 then None else Some (tokens sc ! (i - 1)))"

definition getIndexFromLoc :: "sourceCode \<Rightarrow> position \<Rightarrow> nat" where
  "getIndexFromLoc sc p =
     sum_list (map (\<lambda>l. length l + 1) (take (line p - 1) (lines sc))) + column p"

section \<open>Options and the indent unit\<close>

text \<open>
  \<open>options[0]\<close> is either the string \<open>'tab'\<close> or a non-negative integer; it may be
  absent, and then \<open>options[0] ?? 2\<close> makes it 2.
\<close>

datatype indent_option = Tab | Num nat

type_synonym options = "indent_option option"

definition tab_char :: char where
  "tab_char = CHR 0x09"

definition space_char :: char where
  "space_char = CHR '' ''"

definition indentStr :: "options \<Rightarrow> string" where
  "indentStr opts =
     (case opts of
        Some Tab \<Rightarrow> [tab_char]
      | Some (Num n) \<Rightarrow> replicate n space_char
      | None \<Rightarrow> replicate 2 space_char)"

definition subtractionIndent :: "options \<Rightarrow> string \<Rightarrow> string" where
  "subtractionIndent opts indent =
     (case opts of
        Some Tab \<Rightarrow> drop 1 indent
      | Some (Num n) \<Rightarrow> drop n indent
      | None \<Rightarrow> drop 2 indent)"

definition getTargetIndent :: "options \<Rightarrow> string \<Rightarrow> bool \<Rightarrow> bool \<Rightarrow> string" where
  "getTargetIndent opts indent needAdditionIndent needSubtractionIndent =
     (if needAdditionIndent \<and> \<not> needSubtractionIndent then indent @ indentStr opts
      else if \<not> needAdditionIndent \<and> needSubtractionIndent then subtractionIndent opts indent
      else indent)"

section \<open>The state of one pass: the indent cache and the reports\<close>

record report =
  rep_start :: position
  rep_end :: position
  rep_messageId :: string
  rep_expected :: string
  fix_range :: "nat \<times> nat"
  fix_text :: string

record state =
  indentCache :: "nat \<rightharpoonup> string"
  reports :: "report list"

definition isWhitespace :: "char \<Rightarrow> bool" where
  "isWhitespace c =
     (c \<in> set [CHR 0x09, CHR 0x0A, CHR 0x0B, CHR 0x0C, CHR 0x0D, CHR '' '', CHR 0xA0])"

text \<open>
  \<open>sourceCode.lines[line - 1]\<close> is \<open>undefined\<close> outside the file, and calling \<open>match\<close>
  on it throws.  The pattern \<open>/^\s*/\<close> always matches, so the \<open>?? ''\<close> is never taken.
\<close>

definition getIndentOfLine :: "sourceCode \<Rightarrow> (nat \<rightharpoonup> string) \<Rightarrow> nat \<Rightarrow> error + string" where
  "getIndentOfLine sc cache l =
     (case cache l of
        Some s \<Rightarrow> Inr s
      | None \<Rightarrow>
          if 1 \<le> l \<and> l \<le> length (lines sc)
          then Inr (takeWhile isWhitespace (lines sc ! (l - 1)))
          else Inl TypeError)"

section \<open>Line and bracket queries\<close>

definition firstTokenOfLine :: "sourceCode \<Rightarrow> nat \<Rightarrow> token option" where
  "firstTokenOfLine sc l = List.find (\<lambda>t. line (tok_start t) = l) (tokensAndComments sc)"

definition lastTokenOfLine :: "sourceCode \<Rightarrow> nat \<Rightarrow> token option" where
  "lastTokenOfLine sc l = List.find (\<lambda>t. line (tok_end t) = l) (rev (tokensAndComments sc))"

text \<open>The counting loop of \<open>isGreaterThanCloseBracketOfLine\<close>, with its two counters.\<close>

fun countBrackets :: "token list \<Rightarrow> nat \<times> nat \<Rightarrow> nat \<times> nat" where
  "countBrackets [] (openBracketCount, closeBracketCount) =
     (openBracketCount, closeBracketCount)"
| "countBrackets (t # ts) (openBracketCount, closeBracketCount) =
     countBrackets ts
       (if tok_value t = ''('' then openBracketCount + 1 else openBracketCount,
        if tok_value t = '')'' then closeBracketCount + 1 else closeBracketCount)"

definition isGreaterThanCloseBracketOfLine :: "sourceCode \<Rightarrow> nat \<Rightarrow> bool" where
  "isGreaterThanCloseBracketOfLine sc l =
     (let tokensAndCommentsOfLine = filter (\<lambda>t. line (tok_start t) = l) (tokensAndComments sc);
          (openBracketCount, closeBracketCount) = countBrackets tokensAndCommentsOfLine (0, 0)
      in openBracketCount < closeBracketCount)"

definition hasExclusivelyCloseBracketOfLine :: "sourceCode \<Rightarrow> nat \<Rightarrow> bool" where
  "hasExclusivelyCloseBracketOfLine sc l =
     (\<not> list_ex (\<lambda>t. line (tok_start t) = l \<and> tok_value t \<notin> set ['')'', ''}'', '']''])
          (tokensAndComments sc))"

section \<open>The handler\<close>

text \<open>
  The \<open>while\<close> loop of \<open>handler\<close>: as long as the operator candidate is an opening
  parenthesis, it becomes the operand token and the token before it the new candidate.
  The result \<open>Inr None\<close> is the \<open>return\<close> inside the loop, \<open>Inl TypeError\<close> a property
  read on \<open>null\<close> (the non-null assertions \<open>!\<close> check nothing at run time).
\<close>

function handler_loop ::
  "sourceCode \<Rightarrow> node \<Rightarrow> token \<Rightarrow> token \<Rightarrow> error + (token \<times> token) option" where
  "handler_loop sc right tokenRight tokenOperator =
     (if tok_value tokenOperator = ''('' then
        (case getTokenBefore sc (tok_range tokenOperator) of
           None \<Rightarrow> Inl TypeError
         | Some tokenOperator' \<Rightarrow>
             (case node_parent right of
                None \<Rightarrow> Inl TypeError
              | Some parent \<Rightarrow>
                  if fst (tok_range tokenOperator') \<le> fst (node_range parent) then Inr None
                  else handler_loop sc right tokenOperator tokenOperator'))
      else Inr (Some (tokenRight, tokenOperator)))"
  by pat_completeness auto
termination
proof (relation "measure (\<lambda>(sc, right, tokenRight, tokenOperator).
         tokenIndexAt sc (fst (tok_range tokenOperator)))")
  show "wf (measure (\<lambda>(sc, right, tokenRight, tokenOperator).
         tokenIndexAt sc (fst (tok_range tokenOperator))))"
    by simp
next
  fix sc :: sourceCode and right :: node and tokenRight tokenOperator x2 :: token
  assume before: "getTokenBefore sc (tok_range tokenOperator) = Some x2"
  let ?i = "tokenIndexAt sc (fst (tok_range tokenOperator))"
  let ?P = "\<lambda>t. fst (tok_range t) < fst (tok_range x2)"
  from before have pos: "0 < ?i" and x2: "x2 = tokens sc ! (?i - 1)"
    by (auto simp: getTokenBefore_def Let_def split: if_splits)
  have "?i \<le> length (tokens sc)"
    by (simp add: tokenIndexAt_def length_takeWhile_le)
  with pos have inside: "?i - 1 < length (tokens sc)"
    by arith
  have "tokenIndexAt sc (fst (tok_range x2)) \<le> ?i - 1"
  proof (rule ccontr)
    assume "\<not> ?thesis"
    then have lt: "?i - 1 < length (takeWhile ?P (tokens sc))"
      by (simp add: tokenIndexAt_def)
    then have "takeWhile ?P (tokens sc) ! (?i - 1) \<in> set (takeWhile ?P (tokens sc))"
      by (rule nth_mem)
    then have "?P (takeWhile ?P (tokens sc) ! (?i - 1))"
      by (blast dest: set_takeWhileD)
    with lt have "?P (tokens sc ! (?i - 1))"
      by (simp add: takeWhile_nth)
    with x2 show False
      by simp
  qed
  with pos show "((sc, right, tokenOperator, x2), (sc, right, tokenRight, tokenOperator))
      \<in> measure (\<lambda>(sc, right, tokenRight, tokenOperator).
           tokenIndexAt sc (fst (tok_range tokenOperator)))"
    by simp
qed

declare handler_loop.simps [simp del]

text \<open>
  Lines 257 to 266 of the source: the operand token, the operator, the token before the
  whole node (which may be absent) and the left-context token.
\<close>

record resolved =
  tokenRight :: token
  tokenOperator :: token
  tokenBeforeAll :: "token option"
  tokenLeft :: token

definition handler_tokens :: "sourceCode \<Rightarrow> node \<Rightarrow> node \<Rightarrow> error + resolved option" where
  "handler_tokens sc node right =
     (case getFirstToken sc right of
        None \<Rightarrow> Inl TypeError
      | Some tokenRight0 \<Rightarrow>
     (case getTokenBefore sc (tok_range tokenRight0) of
        None \<Rightarrow> Inl TypeError
      | Some tokenOperator0 \<Rightarrow>
     (case handler_loop sc right tokenRight0 tokenOperator0 of
        Inl e \<Rightarrow> Inl e
      | Inr None \<Rightarrow> Inr None
      | Inr (Some (tokenRight1, tokenOperator1)) \<Rightarrow>
     (case getTokenBefore sc (tok_range tokenOperator1) of
        None \<Rightarrow> Inl TypeError
      | Some tokenLeft1 \<Rightarrow>
          Inr (Some \<lparr>tokenRight = tokenRight1, tokenOperator = tokenOperator1,
                     tokenBeforeAll = getTokenBefore sc (node_range node),
                     tokenLeft = tokenLeft1\<rparr>)))))"

text \<open>\<open>t?.value || ''\<close> for a token that may be absent.\<close>

definition valueOrEmpty :: "token option \<Rightarrow> string" where
  "valueOrEmpty t = (case t of None \<Rightarrow> [] | Some t' \<Rightarrow> tok_value t')"

text \<open>
  The disjunction \<open>needAdditionIndent\<close>.  JavaScript evaluates it from left to right and
  stops at the first true disjunct; only the last one reads an indentation, and only
  after its first two conjuncts hold.
\<close>

definition needAdditionIndent ::
  "sourceCode \<Rightarrow> (nat \<rightharpoonup> string) \<Rightarrow> node \<Rightarrow> token \<Rightarrow> token option \<Rightarrow> error + bool" where
  "needAdditionIndent sc cache node tokLeft tokBeforeAll =
     (let firstTokenOfLineLeft = firstTokenOfLine sc (line (tok_start tokLeft));
          lastTokenOfLineLeft = lastTokenOfLine sc (line (tok_start tokLeft))
      in
      if (case firstTokenOfLineLeft of
            None \<Rightarrow> False
          | Some f \<Rightarrow> tok_type f = ''Keyword''
                      \<and> tok_value f \<notin> set [''typeof'', ''instanceof'', ''this''])
         \<or> (case firstTokenOfLineLeft of
               None \<Rightarrow> False
             | Some f \<Rightarrow> tok_type f = ''Identifier'' \<and> tok_value f = ''type''
                         \<and> map_option node_type (node_parent node) = Some ''TSTypeAliasDeclaration'')
         \<or> valueOrEmpty lastTokenOfLineLeft \<in> set ['':'', ''['', ''('', ''<'', ''='']
         \<or> (valueOrEmpty tokBeforeAll \<in> set [''['', ''('', ''=>'', '':'']
             \<and> map_option (\<lambda>t. line (tok_start t)) firstTokenOfLineLeft
                 = map_option (\<lambda>t. line (tok_start t)) tokBeforeAll)
      then Inr True
      else if valueOrEmpty lastTokenOfLineLeft \<in> set [''||'', ''&&'']
              \<and> line (node_start node) = line (tok_start tokLeft)
      then (case getIndentOfLine sc cache (line (node_start node)) of
              Inl e \<Rightarrow> Inl e
            | Inr indent \<Rightarrow> Inr (column (node_start node) \<noteq> length indent))
      else Inr False)"

definition needSubtractionIndent :: "sourceCode \<Rightarrow> token \<Rightarrow> bool" where
  "needSubtractionIndent sc tokLeft =
     (map_option tok_value (lastTokenOfLine sc (line (tok_start tokLeft))) = Some '')''
      \<and> isGreaterThanCloseBracketOfLine sc (line (tok_start tokLeft))
      \<and> \<not> hasExclusivelyCloseBracketOfLine sc (line (tok_start tokLeft)))"

text \<open>The decimal numeral a template literal prints for a length.\<close>

fun showNat :: "nat \<Rightarrow> string" where
  "showNat n =
     (if n < 10 then [''0123456789'' ! n]
      else showNat (n div 10) @ [''0123456789'' ! (n mod 10)])"

declare showNat.simps [simp del]

definition expectedText :: "options \<Rightarrow> string \<Rightarrow> string" where
  "expectedText opts indentTarget =
     showNat (length indentTarget) @ '' ''
       @ (if opts = Some Tab then ''tab'' else ''space'')
       @ (if length indentTarget = 1 then [] else ''s'')"

definition makeReport :: "options \<Rightarrow> sourceCode \<Rightarrow> token \<Rightarrow> string \<Rightarrow> string \<Rightarrow> report" where
  "makeReport opts sc tokRight indentRight indentTarget =
     (let start = \<lparr>line = line (tok_start tokRight), column = 0\<rparr>;
          end' = \<lparr>line = line (tok_start tokRight), column = length indentRight\<rparr>
      in \<lparr>rep_start = start, rep_end = end',
          rep_messageId = ''wrongIndentation'',
          rep_expected = expectedText opts indentTarget,
          fix_range = (getIndexFromLoc sc start, getIndexFromLoc sc end'),
          fix_text = indentTarget\<rparr>)"

text \<open>Lines 268 to 327 of the source, for the tokens the first part found.\<close>

definition handler_check ::
  "options \<Rightarrow> sourceCode \<Rightarrow> node \<Rightarrow> resolved \<Rightarrow> state \<Rightarrow> error + state" where
  "handler_check opts sc node r st =
     (if line (tok_start (tokenRight r)) = line (tok_start (tokenLeft r)) then Inr st
      else
     (case needAdditionIndent sc (indentCache st) node (tokenLeft r) (tokenBeforeAll r) of
        Inl e \<Rightarrow> Inl e
      | Inr needAddition \<Rightarrow>
     (case getIndentOfLine sc (indentCache st) (line (tok_start (tokenLeft r))) of
        Inl e \<Rightarrow> Inl e
      | Inr indentLeft \<Rightarrow>
     (case getIndentOfLine sc (indentCache st) (line (tok_start (tokenRight r))) of
        Inl e \<Rightarrow> Inl e
      | Inr indentRight \<Rightarrow>
          (let indentTarget =
                 getTargetIndent opts indentLeft needAddition
                   (needSubtractionIndent sc (tokenLeft r))
           in if indentTarget \<noteq> indentRight
              then Inr \<lparr>indentCache =
                          (indentCache st)(line (tok_start (tokenRight r)) \<mapsto> indentTarget),
                        reports =
                          reports st @ [makeReport opts sc (tokenRight r) indentRight indentTarget]\<rparr>
              else Inr st)))))"

definition handler :: "options \<Rightarrow> sourceCode \<Rightarrow> node \<Rightarrow> node \<Rightarrow> state \<Rightarrow> error + state" where
  "handler opts sc node right st =
     (if line (node_start node) = line (node_end node) then Inr st
      else
     (case handler_tokens sc node right of
        Inl e \<Rightarrow> Inl e
      | Inr None \<Rightarrow> Inr st
      | Inr (Some r) \<Rightarrow> handler_check opts sc node r st))"

section \<open>The listeners and one pass over a file\<close>

text \<open>
  The four listeners, each with the node and the children it hands to \<open>handler\<close>:
  \<open>node.right\<close> for a binary or logical expression, \<open>node.types\<close> for a union or an
  intersection type.  A pass calls the listeners in the order of the traversal, on one
  cache that starts empty; an exception ends it.
\<close>

datatype visit =
  BinaryExpression node node
| LogicalExpression node node
| TSUnionType node "node list"
| TSIntersectionType node "node list"

fun handleEach :: "options \<Rightarrow> sourceCode \<Rightarrow> node \<Rightarrow> node list \<Rightarrow> state \<Rightarrow> error + state" where
  "handleEach opts sc node [] st = Inr st"
| "handleEach opts sc node (ty # tys) st =
     (case handler opts sc node ty st of
        Inl e \<Rightarrow> Inl e
      | Inr st' \<Rightarrow> handleEach opts sc node tys st')"

fun listener :: "options \<Rightarrow> sourceCode \<Rightarrow> visit \<Rightarrow> state \<Rightarrow> error + state" where
  "listener opts sc (BinaryExpression node right) st = handler opts sc node right st"
| "listener opts sc (LogicalExpression node right) st = handler opts sc node right st"
| "listener opts sc (TSUnionType node types) st =
     (if length types > 1 then handleEach opts sc node types st else Inr st)"
| "listener opts sc (TSIntersectionType node types) st =
     (if length types > 1 then handleEach opts sc node types st else Inr st)"

fun traverse :: "options \<Rightarrow> sourceCode \<Rightarrow> visit list \<Rightarrow> state \<Rightarrow> error + state" where
  "traverse opts sc [] st = Inr st"
| "traverse opts sc (v # vs) st =
     (case listener opts sc v st of
        Inl e \<Rightarrow> Inl e
      | Inr st' \<Rightarrow> traverse opts sc vs st')"

definition initialState :: state where
  "initialState = \<lparr>indentCache = Map.empty, reports = []\<rparr>"

definition runRule :: "options \<Rightarrow> sourceCode \<Rightarrow> visit list \<Rightarrow> error + state" where
  "runRule opts sc vs = traverse opts sc vs initialState"

section \<open>The specification's vocabulary\<close>

text \<open>
  The width of one indent unit in characters, and the character it is made of.
\<close>

definition indentWidth :: "options \<Rightarrow> nat" where
  "indentWidth opts = (case opts of Some Tab \<Rightarrow> 1 | Some (Num n) \<Rightarrow> n | None \<Rightarrow> 2)"

definition unitChar :: "options \<Rightarrow> char" where
  "unitChar opts = (if opts = Some Tab then tab_char else space_char)"

text \<open>
  The target indentation in the specification's words: subtraction removes the
  \<^emph>\<open>trailing\<close> indent unit, truncating the string by the unit's width.
\<close>

definition removeTrailingUnit :: "options \<Rightarrow> string \<Rightarrow> string" where
  "removeTrailingUnit opts indent = take (length indent - indentWidth opts) indent"

definition spec_targetIndent :: "options \<Rightarrow> string \<Rightarrow> bool \<Rightarrow> bool \<Rightarrow> string" where
  "spec_targetIndent opts indent addition subtraction =
     (if addition \<and> \<not> subtraction then indent @ replicate (indentWidth opts) (unitChar opts)
      else if subtraction \<and> \<not> addition then removeTrailingUnit opts indent
      else indent)"

















text \<open>
  ``Needs one unit of subtraction'' in the specification's words: the last token of the
  line is \<open>)\<close>, more \<open>)\<close> tokens than \<open>(\<close> tokens start on the line, and not every token
  starting on the line, comments excluded, is one of \<open>)\<close>, \<open>}\<close>, \<open>]\<close>.
\<close>

definition spec_needSubtraction :: "sourceCode \<Rightarrow> nat \<Rightarrow> bool" where
  "spec_needSubtraction sc l =
     ((\<exists>t \<in> set_option (lastTokenOfLine sc l). tok_value t = '')'')
      \<and> length (filter (\<lambda>t. tok_value t = ''('') (filter (\<lambda>t. line (tok_start t) = l) (tokens sc)))
          < length (filter (\<lambda>t. tok_value t = '')'') (filter (\<lambda>t. line (tok_start t) = l) (tokens sc)))
      \<and> \<not> list_all (\<lambda>t. tok_value t \<in> {'')'', ''}'', '']''})
             (filter (\<lambda>t. line (tok_start t) = l) (tokens sc)))"

text \<open>
  The same with comments counted as the code counts them: every entry of the merged
  stream of tokens and comments that starts on the line takes part, by its value.
\<close>

definition amended_needSubtraction :: "sourceCode \<Rightarrow> nat \<Rightarrow> bool" where
  "amended_needSubtraction sc l =
     ((\<exists>t \<in> set_option (lastTokenOfLine sc l). tok_value t = '')'')
      \<and> length (filter (\<lambda>t. tok_value t = ''('')
                  (filter (\<lambda>t. line (tok_start t) = l) (tokensAndComments sc)))
          < length (filter (\<lambda>t. tok_value t = '')'')
                  (filter (\<lambda>t. line (tok_start t) = l) (tokensAndComments sc)))
      \<and> \<not> list_all (\<lambda>t. tok_value t \<in> {'')'', ''}'', '']''})
             (filter (\<lambda>t. line (tok_start t) = l) (tokensAndComments sc)))"

text \<open>
  A token stream in source order: the start offsets increase strictly.  Then a token is
  found again from its own start offset, and the token before it is its predecessor in
  the stream.
\<close>

definition tokensOrdered :: "sourceCode \<Rightarrow> bool" where
  "tokensOrdered sc =
     sorted_wrt (\<lambda>a b. fst (tok_range a) < fst (tok_range b)) (tokens sc)"

text \<open>The number of consecutive \<open>(\<close> tokens that immediately precede the token at index \<open>i\<close>.\<close>

fun parensBefore :: "token list \<Rightarrow> nat \<Rightarrow> nat" where
  "parensBefore ts 0 = 0"
| "parensBefore ts (Suc i) =
     (if tok_value (ts ! i) = ''('' then Suc (parensBefore ts i) else 0)"







text \<open>
  An indentation string that consists of the configured unit character only; a file
  whose lines all start with such whitespace; a state whose cache and fixes hold only
  such strings.
\<close>

definition onlyUnit :: "options \<Rightarrow> string \<Rightarrow> bool" where
  "onlyUnit opts s = (set s \<subseteq> {unitChar opts})"

definition cleanSource :: "options \<Rightarrow> sourceCode \<Rightarrow> bool" where
  "cleanSource opts sc =
     list_all (\<lambda>l. onlyUnit opts (takeWhile isWhitespace l)) (lines sc)"

definition cleanState :: "options \<Rightarrow> state \<Rightarrow> bool" where
  "cleanState opts st =
     ((\<forall>s \<in> ran (indentCache st). onlyUnit opts s)
      \<and> list_all (\<lambda>r. onlyUnit opts (fix_text r)) (reports st))"

text \<open>
  The text of a file, its lines joined by line feeds, and the replacement a fix asks
  for.
\<close>

fun joinLines :: "string list \<Rightarrow> string" where
  "joinLines [] = []"
| "joinLines [l] = l"
| "joinLines (l # ls) = l @ CHR 0x0A # joinLines ls"

definition sourceText :: "sourceCode \<Rightarrow> string" where
  "sourceText sc = joinLines (lines sc)"

definition replaceTextRange :: "string \<Rightarrow> nat \<times> nat \<Rightarrow> string \<Rightarrow> string" where
  "replaceTextRange txt r new = take (fst r) txt @ new @ drop (snd r) txt"

text \<open>
  Modelled from the spec: ``applying all reported fixes and re-running the analysis on
  the result'' goes through the host's parser, which is not part of the rule's source.
  A fix of this rule replaces the leading whitespace of one line, so parsing the
  corrected text yields the same tokens and nodes, moved: an offset at or after the end
  of the replaced range moves by the change in length, and so does a column on the
  corrected line.  \<open>applyFix\<close> is the parsed file after the fix of one report.
\<close>

definition shiftOffset :: "report \<Rightarrow> nat \<Rightarrow> nat" where
  "shiftOffset rep x =
     (if snd (fix_range rep) \<le> x
      then x - (snd (fix_range rep) - fst (fix_range rep)) + length (fix_text rep)
      else x)"

definition shiftPosition :: "report \<Rightarrow> position \<Rightarrow> position" where
  "shiftPosition rep p =
     (if line p = line (rep_start rep) \<and> column (rep_end rep) \<le> column p
      then p\<lparr>column := column p - column (rep_end rep) + length (fix_text rep)\<rparr>
      else p)"

definition shiftToken :: "report \<Rightarrow> token \<Rightarrow> token" where
  "shiftToken rep t =
     t\<lparr>tok_range := (shiftOffset rep (fst (tok_range t)), shiftOffset rep (snd (tok_range t))),
       tok_start := shiftPosition rep (tok_start t),
       tok_end := shiftPosition rep (tok_end t)\<rparr>"

primrec shiftNode :: "report \<Rightarrow> node \<Rightarrow> node" where
  "shiftNode rep (Node ty r s e p) =
     Node ty (shiftOffset rep (fst r), shiftOffset rep (snd r))
       (shiftPosition rep s) (shiftPosition rep e) (map_option (shiftNode rep) p)"

definition shiftResolved :: "report \<Rightarrow> resolved \<Rightarrow> resolved" where
  "shiftResolved rep r =
     \<lparr>tokenRight = shiftToken rep (tokenRight r),
      tokenOperator = shiftToken rep (tokenOperator r),
      tokenBeforeAll = map_option (shiftToken rep) (tokenBeforeAll r),
      tokenLeft = shiftToken rep (tokenLeft r)\<rparr>"


definition applyFix :: "report \<Rightarrow> sourceCode \<Rightarrow> sourceCode" where
  "applyFix rep sc =
     \<lparr>tokensAndComments = map (shiftToken rep) (tokensAndComments sc),
      lines = (lines sc)[line (rep_start rep) - 1 :=
                fix_text rep
                  @ drop (column (rep_end rep)) (lines sc ! (line (rep_start rep) - 1))]\<rparr>"

text \<open>
  No token or node begins inside the replaced whitespace or ends inside or right after
  it: a range is clear of the fix when its start is outside \<open>[from, to)\<close> and its end
  outside \<open>[from, to]\<close>.
\<close>

definition clearOf :: "report \<Rightarrow> nat \<times> nat \<Rightarrow> bool" where
  "clearOf rep r =
     ((fst r < fst (fix_range rep) \<or> snd (fix_range rep) \<le> fst r)
      \<and> (snd r < fst (fix_range rep) \<or> snd (fix_range rep) < snd r))"

definition startClear :: "report \<Rightarrow> nat \<Rightarrow> bool" where
  "startClear rep x = (x < fst (fix_range rep) \<or> snd (fix_range rep) \<le> x)"

section \<open>Example inputs\<close>

text \<open>
  A token on one line whose text is its value: category, value, start offset, line and
  column.
\<close>

definition mkToken :: "string \<Rightarrow> string \<Rightarrow> nat \<Rightarrow> nat \<Rightarrow> nat \<Rightarrow> token" where
  "mkToken ty v off l c =
     \<lparr>tok_type = ty, tok_value = v, tok_range = (off, off + length v),
      tok_start = \<lparr>line = l, column = c\<rparr>,
      tok_end = \<lparr>line = l, column = c + length v\<rparr>\<rparr>"

definition mkNode :: "string \<Rightarrow> nat \<times> nat \<Rightarrow> nat \<times> nat \<Rightarrow> nat \<times> nat \<Rightarrow> node option \<Rightarrow> node" where
  "mkNode ty r s e p =
     Node ty r \<lparr>line = fst s, column = snd s\<rparr> \<lparr>line = fst e, column = snd e\<rparr> p"

text \<open>
  A TypeScript file that starts with a type assertion over a union type written on two
  lines:
  \<^verbatim>\<open>
  <A
  | B>x
  \<close>
\<close>

definition assertion_source :: sourceCode where
  "assertion_source =
     \<lparr>tokensAndComments =
        [mkToken ''Punctuator'' ''<'' 0 1 0, mkToken ''Identifier'' ''A'' 1 1 1,
         mkToken ''Punctuator'' ''|'' 3 2 0, mkToken ''Identifier'' ''B'' 5 2 2,
         mkToken ''Punctuator'' ''>'' 6 2 3, mkToken ''Identifier'' ''x'' 7 2 4],
      lines = [''<A'', ''| B>x'']\<rparr>"

definition assertion_union :: node where
  "assertion_union =
     mkNode ''TSUnionType'' (1, 6) (1, 1) (2, 3)
       (Some (mkNode ''TSTypeAssertion'' (0, 8) (1, 0) (2, 5) None))"

definition assertion_A :: node where
  "assertion_A = mkNode ''TSTypeReference'' (1, 2) (1, 1) (1, 2) (Some assertion_union)"

definition assertion_B :: node where
  "assertion_B = mkNode ''TSTypeReference'' (5, 6) (2, 2) (2, 3) (Some assertion_union)"

text \<open>
  An \<open>if\<close> statement indented with a tab, its condition continued on the next line:
  \<^verbatim>\<open>
  <TAB>if (a &&
  b) {}
  \<close>
\<close>

definition if_source :: sourceCode where
  "if_source =
     \<lparr>tokensAndComments =
        [mkToken ''Keyword'' ''if'' 1 1 1, mkToken ''Punctuator'' ''('' 4 1 4,
         mkToken ''Identifier'' ''a'' 5 1 5, mkToken ''Punctuator'' ''&&'' 7 1 7,
         mkToken ''Identifier'' ''b'' 10 2 0, mkToken ''Punctuator'' '')'' 11 2 1,
         mkToken ''Punctuator'' ''{'' 13 2 3, mkToken ''Punctuator'' ''}'' 14 2 4],
      lines = [tab_char # ''if (a &&'', ''b) {}'']\<rparr>"

definition if_test :: node where
  "if_test =
     mkNode ''LogicalExpression'' (5, 11) (1, 5) (2, 1)
       (Some (mkNode ''IfStatement'' (1, 15) (1, 1) (2, 5) None))"

definition if_b :: node where
  "if_b = mkNode ''Identifier'' (10, 11) (2, 0) (2, 1) (Some if_test)"

definition if_resolved :: resolved where
  "if_resolved =
     \<lparr>tokenRight = mkToken ''Identifier'' ''b'' 10 2 0,
      tokenOperator = mkToken ''Punctuator'' ''&&'' 7 1 7,
      tokenBeforeAll = Some (mkToken ''Punctuator'' ''('' 4 1 4),
      tokenLeft = mkToken ''Identifier'' ''a'' 5 1 5\<rparr>"

text \<open>
  A sum whose parenthesised left operand closes on a line that starts with a comment:
  \<^verbatim>\<open>
  (a
    /**/)
    + b
  \<close>
\<close>

definition comment_source :: sourceCode where
  "comment_source =
     \<lparr>tokensAndComments =
        [mkToken ''Punctuator'' ''('' 0 1 0, mkToken ''Identifier'' ''a'' 1 1 1,
         \<lparr>tok_type = ''Block'', tok_value = '''', tok_range = (5, 9),
          tok_start = \<lparr>line = 2, column = 2\<rparr>, tok_end = \<lparr>line = 2, column = 6\<rparr>\<rparr>,
         mkToken ''Punctuator'' '')'' 9 2 6,
         mkToken ''Punctuator'' ''+'' 13 3 2, mkToken ''Identifier'' ''b'' 15 3 4],
      lines = [''(a'', ''  /**/)'', ''  + b'']\<rparr>"

definition comment_sum :: node where
  "comment_sum = mkNode ''BinaryExpression'' (0, 16) (1, 0) (3, 5) None"

definition comment_b :: node where
  "comment_b = mkNode ''Identifier'' (15, 16) (3, 4) (3, 5) (Some comment_sum)"

text \<open>
  A sum whose right operand stands in parentheses that open on a line of their own:
  \<^verbatim>\<open>
  a +
    (
  b)
  \<close>
\<close>

definition paren_source :: sourceCode where
  "paren_source =
     \<lparr>tokensAndComments =
        [mkToken ''Identifier'' ''a'' 0 1 0, mkToken ''Punctuator'' ''+'' 2 1 2,
         mkToken ''Punctuator'' ''('' 6 2 2,
         mkToken ''Identifier'' ''b'' 8 3 0, mkToken ''Punctuator'' '')'' 9 3 1],
      lines = [''a +'', ''  ('', ''b)'']\<rparr>"

definition paren_sum :: node where
  "paren_sum = mkNode ''BinaryExpression'' (0, 10) (1, 0) (3, 2) None"

definition paren_b :: node where
  "paren_b = mkNode ''Identifier'' (8, 9) (3, 0) (3, 1) (Some paren_sum)"

text \<open>
  A union type whose first member stands in parentheses:
  \<^verbatim>\<open>
  type T = (A)
  | B
  \<close>
\<close>

definition alias_source :: sourceCode where
  "alias_source =
     \<lparr>tokensAndComments =
        [mkToken ''Identifier'' ''type'' 0 1 0, mkToken ''Identifier'' ''T'' 5 1 5,
         mkToken ''Punctuator'' ''='' 7 1 7, mkToken ''Punctuator'' ''('' 9 1 9,
         mkToken ''Identifier'' ''A'' 10 1 10, mkToken ''Punctuator'' '')'' 11 1 11,
         mkToken ''Punctuator'' ''|'' 13 2 0, mkToken ''Identifier'' ''B'' 15 2 2],
      lines = [''type T = (A)'', ''| B'']\<rparr>"

definition alias_union :: node where
  "alias_union =
     mkNode ''TSUnionType'' (9, 16) (1, 9) (2, 3)
       (Some (mkNode ''TSTypeAliasDeclaration'' (0, 16) (1, 0) (2, 3) None))"

definition alias_A :: node where
  "alias_A = mkNode ''TSTypeReference'' (10, 11) (1, 10) (1, 11) (Some alias_union)"

text \<open>
  A chain of logical operators, each operand on a line of its own, and the same file
  after line 2 was indented by two spaces:
  \<^verbatim>\<open>
  const x = a ||        const x = a ||
  b ||                    b ||
  c                     c
  \<close>
  The outer expression \<open>(a || b) || c\<close> is visited before the inner \<open>a || b\<close>.
\<close>

definition chain_source :: sourceCode where
  "chain_source =
     \<lparr>tokensAndComments =
        [mkToken ''Keyword'' ''const'' 0 1 0, mkToken ''Identifier'' ''x'' 6 1 6,
         mkToken ''Punctuator'' ''='' 8 1 8, mkToken ''Identifier'' ''a'' 10 1 10,
         mkToken ''Punctuator'' ''||'' 12 1 12,
         mkToken ''Identifier'' ''b'' 15 2 0, mkToken ''Punctuator'' ''||'' 17 2 2,
         mkToken ''Identifier'' ''c'' 20 3 0],
      lines = [''const x = a ||'', ''b ||'', ''c'']\<rparr>"

definition chain_declarator :: node where
  "chain_declarator = mkNode ''VariableDeclarator'' (6, 21) (1, 6) (3, 1) None"

definition chain_outer :: node where
  "chain_outer = mkNode ''LogicalExpression'' (10, 21) (1, 10) (3, 1) (Some chain_declarator)"

definition chain_c :: node where
  "chain_c = mkNode ''Identifier'' (20, 21) (3, 0) (3, 1) (Some chain_outer)"

definition chain_inner :: node where
  "chain_inner = mkNode ''LogicalExpression'' (10, 16) (1, 10) (2, 1) (Some chain_outer)"

definition chain_b :: node where
  "chain_b = mkNode ''Identifier'' (15, 16) (2, 0) (2, 1) (Some chain_inner)"

definition chain_visits :: "visit list" where
  "chain_visits =
     [LogicalExpression chain_outer chain_c, LogicalExpression chain_inner chain_b]"

definition chain_fixed_source :: sourceCode where
  "chain_fixed_source =
     \<lparr>tokensAndComments =
        [mkToken ''Keyword'' ''const'' 0 1 0, mkToken ''Identifier'' ''x'' 6 1 6,
         mkToken ''Punctuator'' ''='' 8 1 8, mkToken ''Identifier'' ''a'' 10 1 10,
         mkToken ''Punctuator'' ''||'' 12 1 12,
         mkToken ''Identifier'' ''b'' 17 2 2, mkToken ''Punctuator'' ''||'' 19 2 4,
         mkToken ''Identifier'' ''c'' 22 3 0],
      lines = [''const x = a ||'', ''  b ||'', ''c'']\<rparr>"

definition chain_fixed_declarator :: node where
  "chain_fixed_declarator = mkNode ''VariableDeclarator'' (6, 23) (1, 6) (3, 1) None"

definition chain_fixed_outer :: node where
  "chain_fixed_outer =
     mkNode ''LogicalExpression'' (10, 23) (1, 10) (3, 1) (Some chain_fixed_declarator)"

definition chain_fixed_c :: node where
  "chain_fixed_c = mkNode ''Identifier'' (22, 23) (3, 0) (3, 1) (Some chain_fixed_outer)"

definition chain_fixed_inner :: node where
  "chain_fixed_inner =
     mkNode ''LogicalExpression'' (10, 18) (1, 10) (2, 3) (Some chain_fixed_outer)"

definition chain_fixed_b :: node where
  "chain_fixed_b = mkNode ''Identifier'' (17, 18) (2, 2) (2, 3) (Some chain_fixed_inner)"

definition chain_fixed_visits :: "visit list" where
  "chain_fixed_visits =
     [LogicalExpression chain_fixed_outer chain_fixed_c,
      LogicalExpression chain_fixed_inner chain_fixed_b]"

definition chain_outer_resolved :: resolved where
  "chain_outer_resolved =
     \<lparr>tokenRight = mkToken ''Identifier'' ''c'' 20 3 0,
      tokenOperator = mkToken ''Punctuator'' ''||'' 17 2 2,
      tokenBeforeAll = Some (mkToken ''Punctuator'' ''='' 8 1 8),
      tokenLeft = mkToken ''Identifier'' ''b'' 15 2 0\<rparr>"

definition chain_inner_resolved :: resolved where
  "chain_inner_resolved =
     \<lparr>tokenRight = mkToken ''Identifier'' ''b'' 15 2 0,
      tokenOperator = mkToken ''Punctuator'' ''||'' 12 1 12,
      tokenBeforeAll = Some (mkToken ''Punctuator'' ''='' 8 1 8),
      tokenLeft = mkToken ''Identifier'' ''a'' 10 1 10\<rparr>"

text \<open>
  A sum continued on a second line that holds two of its operators:
  \<^verbatim>\<open>
  a +
     b + c * d
  \<close>
\<close>

definition sum_source :: sourceCode where
  "sum_source =
     \<lparr>tokensAndComments =
        [mkToken ''Identifier'' ''a'' 0 1 0, mkToken ''Punctuator'' ''+'' 2 1 2,
         mkToken ''Identifier'' ''b'' 7 2 3, mkToken ''Punctuator'' ''+'' 9 2 5,
         mkToken ''Identifier'' ''c'' 11 2 7, mkToken ''Punctuator'' ''*'' 13 2 9,
         mkToken ''Identifier'' ''d'' 15 2 11],
      lines = [''a +'', ''   b + c * d'']\<rparr>"

definition sum_outer :: node where
  "sum_outer = mkNode ''BinaryExpression'' (0, 16) (1, 0) (2, 12) None"

definition sum_product :: node where
  "sum_product = mkNode ''BinaryExpression'' (11, 16) (2, 7) (2, 12) (Some sum_outer)"

definition sum_d :: node where
  "sum_d = mkNode ''Identifier'' (15, 16) (2, 11) (2, 12) (Some sum_product)"

definition sum_resolved :: resolved where
  "sum_resolved =
     \<lparr>tokenRight = mkToken ''Identifier'' ''c'' 11 2 7,
      tokenOperator = mkToken ''Punctuator'' ''+'' 9 2 5,
      tokenBeforeAll = None,
      tokenLeft = mkToken ''Identifier'' ''b'' 7 2 3\<rparr>"

definition chain_report :: report where
  "chain_report =
     \<lparr>rep_start = \<lparr>line = 2, column = 0\<rparr>,
      rep_end = \<lparr>line = 2, column = 0\<rparr>,
      rep_messageId = ''wrongIndentation'', rep_expected = ''2 spaces'',
      fix_range = (15, 15), fix_text = ''  ''\<rparr>"

definition chain_state :: state where
  "chain_state = \<lparr>indentCache = [2 \<mapsto> ''  ''], reports = [chain_report]\<rparr>"









































section \<open>Auxiliary facts\<close>

lemmas host_defs =
  tokens_def isComment_def tokenIndexAt_def getFirstToken_def getTokenBefore_def
  getIndexFromLoc_def mkToken_def mkNode_def

lemmas rule_defs =
  handler_def handler_tokens_def handler_check_def handler_loop.simps
  needAdditionIndent_def needSubtractionIndent_def valueOrEmpty_def
  firstTokenOfLine_def lastTokenOfLine_def isGreaterThanCloseBracketOfLine_def
  hasExclusivelyCloseBracketOfLine_def getIndentOfLine_def getTargetIndent_def
  subtractionIndent_def indentStr_def makeReport_def expectedText_def showNat.simps
  isWhitespace_def tab_char_def space_char_def initialState_def runRule_def Let_def

lemma replicate_two: "replicate 2 c = [c, c]"
  by (simp add: numeral_2_eq_2)

lemma drop_eq_take_of_uniform:
  assumes "set xs \<subseteq> {c}"
  shows "drop n xs = take (length xs - n) xs"
proof -
  from assms have "replicate (length xs) c = xs"
    by (intro replicate_length_same) auto
  then obtain m where xs: "xs = replicate m c"
    by metis
  show ?thesis
    unfolding xs by simp
qed


lemma if_source_tokens: "handler_tokens if_source if_test if_b = Inr (Some if_resolved)"
  by (simp add: rule_defs host_defs if_source_def if_test_def if_b_def if_resolved_def)

lemma countBrackets_eq:
  "countBrackets ts (openBracketCount, closeBracketCount) =
     (openBracketCount + length (filter (\<lambda>t. tok_value t = ''('') ts),
      closeBracketCount + length (filter (\<lambda>t. tok_value t = '')'') ts))"
  by (induction ts arbitrary: openBracketCount closeBracketCount) simp_all

lemma hasExclusivelyCloseBracketOfLine_all:
  "hasExclusivelyCloseBracketOfLine sc l =
     list_all (\<lambda>t. tok_value t \<in> {'')'', ''}'', '']''})
       (filter (\<lambda>t. line (tok_start t) = l) (tokensAndComments sc))"
  by (auto simp: hasExclusivelyCloseBracketOfLine_def list_ex_iff list_all_iff)

lemma tokenIndexAt_nth:
  assumes "tokensOrdered sc" and "k < length (tokens sc)"
  shows "tokenIndexAt sc (fst (tok_range (tokens sc ! k))) = k"
proof -
  let ?P = "\<lambda>t. fst (tok_range t) < fst (tok_range (tokens sc ! k))"
  have sorted: "sorted_wrt (\<lambda>a b. fst (tok_range a) < fst (tok_range b)) (tokens sc)"
    using assms(1) by (simp add: tokensOrdered_def)
  have "takeWhile ?P (tokens sc) = take k (tokens sc)"
  proof (rule takeWhile_eq_take_P_nth)
    fix i assume "i < k" "i < length (tokens sc)"
    then show "?P (tokens sc ! i)"
      using sorted_wrt_nth_less [OF sorted, of i k] assms(2) by simp
  next
    show "\<not> ?P (tokens sc ! k)" by simp
  qed
  then show ?thesis
    using assms(2) by (simp add: tokenIndexAt_def)
qed

lemma getTokenBefore_nth:
  assumes "tokensOrdered sc" and "k < length (tokens sc)"
  shows "getTokenBefore sc (tok_range (tokens sc ! k))
           = (if k = 0 then None else Some (tokens sc ! (k - 1)))"
  by (simp add: getTokenBefore_def tokenIndexAt_nth [OF assms])

lemma parensBefore_le: "parensBefore ts i \<le> i"
  by (induction i) simp_all

lemma parensBefore_parens:
  "i - parensBefore ts i \<le> m \<Longrightarrow> m < i \<Longrightarrow> tok_value (ts ! m) = ''(''"
proof (induction i)
  case 0
  then show ?case by simp
next
  case (Suc i)
  show ?case
  proof (cases "tok_value (ts ! i) = ''(''")
    case True
    show ?thesis
    proof (cases "m = i")
      case True
      with \<open>tok_value (ts ! i) = ''(''\<close> show ?thesis by simp
    next
      case False
      with Suc.prems True have "i - parensBefore ts i \<le> m" "m < i"
        using parensBefore_le [of ts i] by auto
      then show ?thesis by (rule Suc.IH)
    qed
  next
    case False
    with Suc.prems show ?thesis by simp
  qed
qed

lemma parensBefore_stop:
  "parensBefore ts i < i \<Longrightarrow> tok_value (ts ! (i - 1 - parensBefore ts i)) \<noteq> ''(''"
proof (induction i)
  case 0
  then show ?case by simp
next
  case (Suc i)
  show ?case
  proof (cases "tok_value (ts ! i) = ''(''")
    case True
    with Suc.prems have "parensBefore ts i < i" by simp
    then have "tok_value (ts ! (i - 1 - parensBefore ts i)) \<noteq> ''(''"
      by (rule Suc.IH)
    with True show ?thesis by simp
  next
    case False
    then show ?thesis by simp
  qed
qed

text \<open>The loop, started at the operator candidate of index \<open>j\<close>, with \<open>n\<close> parentheses to skip.\<close>

lemma handler_loop_skips:
  assumes ordered: "tokensOrdered sc" and parent: "node_parent right = Some p"
  shows "j < length (tokens sc) \<Longrightarrow> n \<le> j
    \<Longrightarrow> (\<And>q. j - n < q \<Longrightarrow> q \<le> j \<Longrightarrow> tok_value (tokens sc ! q) = ''('')
    \<Longrightarrow> tok_value (tokens sc ! (j - n)) \<noteq> ''(''
    \<Longrightarrow> (\<And>q. j - n \<le> q \<Longrightarrow> q < j \<Longrightarrow> fst (node_range p) < fst (tok_range (tokens sc ! q)))
    \<Longrightarrow> handler_loop sc right tr (tokens sc ! j)
          = Inr (Some (if n = 0 then tr else tokens sc ! (j - n + 1), tokens sc ! (j - n)))"
proof (induction n arbitrary: j tr)
  case 0
  then show ?case by (simp add: handler_loop.simps)
next
  case (Suc n)
  from Suc.prems have j: "0 < j" "j - 1 < length (tokens sc)" "n \<le> j - 1" by arith+
  have paren: "tok_value (tokens sc ! j) = ''(''"
    using Suc.prems(3) [of j] Suc.prems(2) by simp
  have before: "getTokenBefore sc (tok_range (tokens sc ! j)) = Some (tokens sc ! (j - 1))"
    using getTokenBefore_nth [OF ordered Suc.prems(1)] j by simp
  have guard: "fst (node_range p) < fst (tok_range (tokens sc ! (j - 1)))"
    using Suc.prems(5) [of "j - 1"] j Suc.prems(2) by simp
  have eq: "j - 1 - n = j - Suc n" by simp
  have "handler_loop sc right (tokens sc ! j) (tokens sc ! (j - 1))
      = Inr (Some (if n = 0 then tokens sc ! j else tokens sc ! (j - 1 - n + 1),
                   tokens sc ! (j - 1 - n)))"
  proof (rule Suc.IH [OF j(2) j(3)])
    fix q assume "j - 1 - n < q" "q \<le> j - 1"
    then show "tok_value (tokens sc ! q) = ''(''"
      using Suc.prems(3) [of q] by simp
  next
    show "tok_value (tokens sc ! (j - 1 - n)) \<noteq> ''(''"
      using Suc.prems(4) by (simp add: eq)
  next
    fix q assume "j - 1 - n \<le> q" "q < j - 1"
    then show "fst (node_range p) < fst (tok_range (tokens sc ! q))"
      using Suc.prems(5) [of q] by simp
  qed
  moreover have "(if n = 0 then tokens sc ! j else tokens sc ! (j - 1 - n + 1))
      = tokens sc ! (j - Suc n + 1)"
    using Suc.prems(2) by (auto simp: Suc_diff_Suc)
  ultimately show ?case
    using paren before guard parent
    by (subst handler_loop.simps) (simp add: eq)
qed

lemma handler_loop_aborts:
  assumes ordered: "tokensOrdered sc" and parent: "node_parent right = Some p"
  shows "j < length (tokens sc) \<Longrightarrow> 1 \<le> n \<Longrightarrow> n \<le> j
    \<Longrightarrow> (\<And>q. j - n < q \<Longrightarrow> q \<le> j \<Longrightarrow> tok_value (tokens sc ! q) = ''('')
    \<Longrightarrow> fst (tok_range (tokens sc ! (j - n))) \<le> fst (node_range p)
    \<Longrightarrow> handler_loop sc right tr (tokens sc ! j) = Inr None"
proof (induction n arbitrary: j tr)
  case 0
  then show ?case by simp
next
  case (Suc n)
  from Suc.prems have j: "0 < j" "j - 1 < length (tokens sc)" "n \<le> j - 1" by arith+
  have paren: "tok_value (tokens sc ! j) = ''(''"
    using Suc.prems(4) [of j] Suc.prems(3) by simp
  have before: "getTokenBefore sc (tok_range (tokens sc ! j)) = Some (tokens sc ! (j - 1))"
    using getTokenBefore_nth [OF ordered Suc.prems(1)] j by simp
  show ?case
  proof (cases "fst (tok_range (tokens sc ! (j - 1))) \<le> fst (node_range p)")
    case True
    with paren before parent show ?thesis
      by (subst handler_loop.simps) simp
  next
    case False
    with Suc.prems(5) have "n \<noteq> 0" by (cases n) auto
    then have n: "1 \<le> n" by simp
    have eq: "j - 1 - n = j - Suc n" by simp
    have "handler_loop sc right (tokens sc ! j) (tokens sc ! (j - 1)) = Inr None"
    proof (rule Suc.IH [OF j(2) n j(3)])
      fix q assume "j - 1 - n < q" "q \<le> j - 1"
      then show "tok_value (tokens sc ! q) = ''(''"
        using Suc.prems(4) [of q] by simp
    next
      show "fst (tok_range (tokens sc ! (j - 1 - n))) \<le> fst (node_range p)"
        using Suc.prems(5) by (simp add: eq)
    qed
    with paren before parent False show ?thesis
      by (subst handler_loop.simps) simp
  qed
qed




lemma chain_outer_tokens:
  "handler_tokens chain_source chain_outer chain_c = Inr (Some chain_outer_resolved)"
  by (simp add: rule_defs host_defs chain_source_def chain_outer_def chain_c_def
        chain_declarator_def chain_outer_resolved_def)

lemma chain_inner_tokens:
  "handler_tokens chain_source chain_inner chain_b = Inr (Some chain_inner_resolved)"
  by (simp add: rule_defs host_defs chain_source_def chain_inner_def chain_b_def
        chain_outer_def chain_declarator_def chain_inner_resolved_def)

text \<open>
  The first part of the handler on a stream in source order, with \<open>i\<close> the index of the
  operand's first token: what the loop does with the parentheses before it.
\<close>

lemma handler_tokens_aborts:
  assumes ordered: "tokensOrdered sc"
    and owner: "node_parent right = Some node"
    and first: "getFirstToken sc right = Some t"
    and j: "1 \<le> j" "j \<le> parensBefore (tokens sc) (tokenIndexAt sc (fst (node_range right)))"
      "j < tokenIndexAt sc (fst (node_range right))"
    and before: "fst (tok_range (tokens sc ! (tokenIndexAt sc (fst (node_range right)) - 1 - j)))
                   \<le> fst (node_range node)"
  shows "handler_tokens sc node right = Inr None"
proof -
  define i where "i = tokenIndexAt sc (fst (node_range right))"
  define k where "k = parensBefore (tokens sc) i"
  note j' = j [folded i_def, folded k_def] and before' = before [folded i_def]
  from first have t: "t = tokens sc ! i" and i: "i < length (tokens sc)"
    by (auto simp: getFirstToken_def i_def Let_def split: if_splits)
  have parens: "\<And>m. i - k \<le> m \<Longrightarrow> m < i \<Longrightarrow> tok_value (tokens sc ! m) = ''(''"
    unfolding k_def by (rule parensBefore_parens)
  have op0: "getTokenBefore sc (tok_range t) = Some (tokens sc ! (i - 1))"
    unfolding t using getTokenBefore_nth [OF ordered i] j' by simp
  have "handler_loop sc right t (tokens sc ! (i - 1)) = Inr None"
  proof (rule handler_loop_aborts [OF ordered owner, where n = j])
    show "i - 1 < length (tokens sc)" using i by simp
    show "1 \<le> j" by fact
    show "j \<le> i - 1" using j' by simp
    show "fst (tok_range (tokens sc ! (i - 1 - j))) \<le> fst (node_range node)" by fact
  next
    fix q assume "i - 1 - j < q" "q \<le> i - 1"
    with j' show "tok_value (tokens sc ! q) = ''(''"
      by (intro parens) auto
  qed
  with first op0 show ?thesis
    by (simp add: handler_tokens_def)
qed

lemma handler_tokens_skips:
  assumes ordered: "tokensOrdered sc"
    and owner: "node_parent right = Some node"
    and first: "getFirstToken sc right = Some t"
    and inside: "parensBefore (tokens sc) (tokenIndexAt sc (fst (node_range right))) + 1
                   < tokenIndexAt sc (fst (node_range right))"
    and guard: "\<And>j. 1 \<le> j
        \<Longrightarrow> j \<le> parensBefore (tokens sc) (tokenIndexAt sc (fst (node_range right)))
        \<Longrightarrow> fst (node_range node)
              < fst (tok_range (tokens sc ! (tokenIndexAt sc (fst (node_range right)) - 1 - j)))"
  shows "handler_tokens sc node right
    = Inr (Some
        \<lparr>tokenRight =
           tokens sc ! (tokenIndexAt sc (fst (node_range right))
             - parensBefore (tokens sc) (tokenIndexAt sc (fst (node_range right)))),
         tokenOperator =
           tokens sc ! (tokenIndexAt sc (fst (node_range right)) - 1
             - parensBefore (tokens sc) (tokenIndexAt sc (fst (node_range right)))),
         tokenBeforeAll = getTokenBefore sc (node_range node),
         tokenLeft =
           tokens sc ! (tokenIndexAt sc (fst (node_range right)) - 2
             - parensBefore (tokens sc) (tokenIndexAt sc (fst (node_range right))))\<rparr>)"
proof -
  define i where "i = tokenIndexAt sc (fst (node_range right))"
  define k where "k = parensBefore (tokens sc) i"
  note k = inside [folded i_def, folded k_def] and guard' = guard [folded i_def, folded k_def]
  from first have t: "t = tokens sc ! i" and i: "i < length (tokens sc)"
    by (auto simp: getFirstToken_def i_def Let_def split: if_splits)
  have parens: "\<And>m. i - k \<le> m \<Longrightarrow> m < i \<Longrightarrow> tok_value (tokens sc ! m) = ''(''"
    unfolding k_def by (rule parensBefore_parens)
  have op0: "getTokenBefore sc (tok_range t) = Some (tokens sc ! (i - 1))"
    unfolding t using getTokenBefore_nth [OF ordered i] k by simp
  have stop: "tok_value (tokens sc ! (i - 1 - k)) \<noteq> ''(''"
    unfolding k_def using k by (intro parensBefore_stop) (simp add: k_def)
  have loop: "handler_loop sc right t (tokens sc ! (i - 1))
      = Inr (Some (if k = 0 then t else tokens sc ! (i - 1 - k + 1), tokens sc ! (i - 1 - k)))"
  proof (rule handler_loop_skips [OF ordered owner])
    show "i - 1 < length (tokens sc)" using i by simp
    show "k \<le> i - 1" using k by simp
    show "tok_value (tokens sc ! (i - 1 - k)) \<noteq> ''(''" by fact
  next
    fix q assume "i - 1 - k < q" "q \<le> i - 1"
    with k show "tok_value (tokens sc ! q) = ''(''"
      by (intro parens) auto
  next
    fix q assume q: "i - 1 - k \<le> q" "q < i - 1"
    with k have "1 \<le> i - 1 - q" "i - 1 - q \<le> k" "i - 1 - (i - 1 - q) = q" by auto
    with guard' [of "i - 1 - q"]
    show "fst (node_range node) < fst (tok_range (tokens sc ! q))" by simp
  qed
  have right: "(if k = 0 then t else tokens sc ! (i - 1 - k + 1)) = tokens sc ! (i - k)"
  proof (cases "k = 0")
    case True
    then show ?thesis by (simp add: t)
  next
    case False
    with k have "i - 1 - k + 1 = i - k" by arith
    with False show ?thesis by simp
  qed
  have "i - 1 - k < length (tokens sc)" using i by simp
  from getTokenBefore_nth [OF ordered this] k
  have left: "getTokenBefore sc (tok_range (tokens sc ! (i - 1 - k)))
      = Some (tokens sc ! (i - 2 - k))"
    by (simp add: numeral_2_eq_2)
  show ?thesis
    using first op0 loop right left
    by (simp add: handler_tokens_def i_def [symmetric] k_def [symmetric])
qed

lemma handler_check_changed:
  assumes "handler_check opts sc node r st = Inr st'" and "st' \<noteq> st"
  shows "\<exists>indentRight indentTarget.
           getIndentOfLine sc (indentCache st) (line (tok_start (tokenRight r))) = Inr indentRight
           \<and> indentTarget \<noteq> indentRight
           \<and> st' = \<lparr>indentCache =
                       (indentCache st)(line (tok_start (tokenRight r)) \<mapsto> indentTarget),
                     reports = reports st
                       @ [makeReport opts sc (tokenRight r) indentRight indentTarget]\<rparr>"
  using assms
  by (auto simp: handler_check_def Let_def split: if_splits sum.splits)

lemma handler_changed:
  assumes "handler opts sc node right st = Inr st'" and "st' \<noteq> st"
  shows "\<exists>r. handler_tokens sc node right = Inr (Some r)
           \<and> handler_check opts sc node r st = Inr st'"
  using assms
  by (auto simp: handler_def split: if_splits sum.splits option.splits)

lemma onlyUnit_indentStr: "onlyUnit opts (indentStr opts)"
  by (auto simp: onlyUnit_def indentStr_def unitChar_def
        split: option.splits indent_option.splits)

lemma onlyUnit_target:
  assumes "onlyUnit opts indent"
  shows "onlyUnit opts (getTargetIndent opts indent addition subtraction)"
proof -
  have "set (subtractionIndent opts indent) \<subseteq> set indent"
    by (auto simp: subtractionIndent_def split: option.splits indent_option.splits
          dest: in_set_dropD)
  with assms onlyUnit_indentStr [of opts] show ?thesis
    by (auto simp: getTargetIndent_def onlyUnit_def)
qed

lemma getIndentOfLine_clean:
  assumes "cleanSource opts sc" and "\<forall>s \<in> ran cache. onlyUnit opts s"
    and "getIndentOfLine sc cache l = Inr indent"
  shows "onlyUnit opts indent"
proof (cases "cache l")
  case None
  with assms(3) have l: "l - 1 < length (lines sc)"
    and indent: "indent = takeWhile isWhitespace (lines sc ! (l - 1))"
    by (auto simp: getIndentOfLine_def split: if_splits)
  from l have "lines sc ! (l - 1) \<in> set (lines sc)"
    by (rule nth_mem)
  with assms(1) show ?thesis
    by (simp add: cleanSource_def list_all_iff indent)
next
  case (Some s)
  with assms(3) have "indent = s"
    by (simp add: getIndentOfLine_def)
  with Some assms(2) show ?thesis
    by (auto simp: ran_def)
qed

lemma handler_check_clean:
  assumes source: "cleanSource opts sc" and state: "cleanState opts st"
    and result: "handler_check opts sc node r st = Inr st'"
  shows "cleanState opts st'"
proof (cases "st' = st")
  case True
  with state show ?thesis by simp
next
  case False
  from state have cache: "\<forall>s \<in> ran (indentCache st). onlyUnit opts s"
    by (simp add: cleanState_def)
  from result False obtain needAddition indentLeft indentRight
    where left: "getIndentOfLine sc (indentCache st) (line (tok_start (tokenLeft r)))
                   = Inr indentLeft"
      and st': "st' = \<lparr>indentCache = (indentCache st)(line (tok_start (tokenRight r)) \<mapsto>
                         getTargetIndent opts indentLeft needAddition
                           (needSubtractionIndent sc (tokenLeft r))),
                       reports = reports st @ [makeReport opts sc (tokenRight r) indentRight
                         (getTargetIndent opts indentLeft needAddition
                           (needSubtractionIndent sc (tokenLeft r)))]\<rparr>"
    by (auto simp: handler_check_def Let_def split: if_splits sum.splits)
  have "onlyUnit opts indentLeft"
    using source cache left by (rule getIndentOfLine_clean)
  then have target: "onlyUnit opts (getTargetIndent opts indentLeft needAddition
      (needSubtractionIndent sc (tokenLeft r)))"
    by (rule onlyUnit_target)
  have "ran ((indentCache st)(line (tok_start (tokenRight r)) \<mapsto>
      getTargetIndent opts indentLeft needAddition (needSubtractionIndent sc (tokenLeft r))))
    \<subseteq> insert (getTargetIndent opts indentLeft needAddition
          (needSubtractionIndent sc (tokenLeft r))) (ran (indentCache st))"
    by (auto simp: ran_def)
  with cache target state show ?thesis
    unfolding st' by (auto simp: cleanState_def makeReport_def Let_def)
qed

lemma handler_clean:
  assumes "cleanSource opts sc" and "cleanState opts st"
    and "handler opts sc node right st = Inr st'"
  shows "cleanState opts st'"
  using assms
  by (auto simp: handler_def split: if_splits sum.splits option.splits
        intro: handler_check_clean)

lemma handleEach_clean:
  "cleanSource opts sc \<Longrightarrow> cleanState opts st
    \<Longrightarrow> handleEach opts sc node types st = Inr st' \<Longrightarrow> cleanState opts st'"
  by (induction types arbitrary: st)
     (auto split: sum.splits intro: handler_clean)

lemma listener_clean:
  "cleanSource opts sc \<Longrightarrow> cleanState opts st
    \<Longrightarrow> listener opts sc v st = Inr st' \<Longrightarrow> cleanState opts st'"
  by (cases v) (auto split: if_splits intro: handler_clean handleEach_clean)

lemma traverse_clean:
  "cleanSource opts sc \<Longrightarrow> cleanState opts st
    \<Longrightarrow> traverse opts sc vs st = Inr st' \<Longrightarrow> cleanState opts st'"
  by (induction vs arbitrary: st)
     (auto split: sum.splits intro: listener_clean)

text \<open>
  The handler reads offsets only to order them and columns only on the left-context
  line, so on the file after a fix it finds the moved images of the same tokens.
\<close>

lemma find_map: "List.find P (map f xs) = map_option f (List.find (P \<circ> f) xs)"
  by (induction xs) simp_all

lemma shiftOffset_less:
  assumes "fst (fix_range rep) \<le> snd (fix_range rep)"
    and "x < fst (fix_range rep) \<or> snd (fix_range rep) \<le> x"
    and "y < fst (fix_range rep) \<or> snd (fix_range rep) \<le> y"
  shows "shiftOffset rep x < shiftOffset rep y \<longleftrightarrow> x < y"
  using assms by (auto simp: shiftOffset_def)

lemma shiftOffset_le:
  assumes "fst (fix_range rep) \<le> snd (fix_range rep)"
    and "x < fst (fix_range rep) \<or> snd (fix_range rep) < x"
    and "y < fst (fix_range rep) \<or> snd (fix_range rep) < y"
  shows "shiftOffset rep x \<le> shiftOffset rep y \<longleftrightarrow> x \<le> y"
  using assms by (auto simp: shiftOffset_def)

lemma shiftOffset_start_le:
  assumes "fst (fix_range rep) \<le> snd (fix_range rep)"
    and "x < fst (fix_range rep) \<or> snd (fix_range rep) \<le> x"
    and "y < fst (fix_range rep) \<or> snd (fix_range rep) \<le> y"
  shows "shiftOffset rep x \<le> shiftOffset rep y \<longleftrightarrow> x \<le> y"
  using assms by (auto simp: shiftOffset_def)

lemma shiftToken_simps [simp]:
  "tok_type (shiftToken rep t) = tok_type t"
  "tok_value (shiftToken rep t) = tok_value t"
  "line (tok_start (shiftToken rep t)) = line (tok_start t)"
  "line (tok_end (shiftToken rep t)) = line (tok_end t)"
  "fst (tok_range (shiftToken rep t)) = shiftOffset rep (fst (tok_range t))"
  "snd (tok_range (shiftToken rep t)) = shiftOffset rep (snd (tok_range t))"
  "isComment (shiftToken rep t) = isComment t"
  by (simp_all add: shiftToken_def shiftPosition_def isComment_def)

lemma shiftNode_simps [simp]:
  "node_type (shiftNode rep n) = node_type n"
  "line (node_start (shiftNode rep n)) = line (node_start n)"
  "line (node_end (shiftNode rep n)) = line (node_end n)"
  "fst (node_range (shiftNode rep n)) = shiftOffset rep (fst (node_range n))"
  "snd (node_range (shiftNode rep n)) = shiftOffset rep (snd (node_range n))"
  "node_parent (shiftNode rep n) = map_option (shiftNode rep) (node_parent n)"
  by (cases n; simp add: shiftPosition_def)+

lemma shiftNode_column:
  "line (node_start n) \<noteq> line (rep_start rep)
    \<Longrightarrow> column (node_start (shiftNode rep n)) = column (node_start n)"
  by (cases n) (simp add: shiftPosition_def)

lemma tokens_applyFix: "tokens (applyFix rep sc) = map (shiftToken rep) (tokens sc)"
  by (simp add: tokens_def applyFix_def filter_map comp_def)

lemma clearOf_start: "clearOf rep r \<Longrightarrow> startClear rep (fst r)"
  by (simp add: clearOf_def startClear_def)

lemma tokens_clear:
  assumes "\<forall>t \<in> set (tokensAndComments sc). clearOf rep (tok_range t)"
    and "t \<in> set (tokens sc)"
  shows "clearOf rep (tok_range t)"
  using assms by (simp add: tokens_def)

lemma tokenIndexAt_applyFix:
  assumes range: "fst (fix_range rep) \<le> snd (fix_range rep)"
    and toks: "\<forall>t \<in> set (tokensAndComments sc). clearOf rep (tok_range t)"
    and x: "startClear rep x"
  shows "tokenIndexAt (applyFix rep sc) (shiftOffset rep x) = tokenIndexAt sc x"
proof -
  have "takeWhile ((\<lambda>t. fst (tok_range t) < shiftOffset rep x) \<circ> shiftToken rep) (tokens sc)
      = takeWhile (\<lambda>t. fst (tok_range t) < x) (tokens sc)"
  proof (rule takeWhile_cong [OF refl])
    fix t assume "t \<in> set (tokens sc)"
    with toks have "startClear rep (fst (tok_range t))"
      by (blast intro: clearOf_start tokens_clear)
    with x range
    show "((\<lambda>t. fst (tok_range t) < shiftOffset rep x) \<circ> shiftToken rep) t
        = (fst (tok_range t) < x)"
      by (simp add: shiftOffset_less startClear_def)
  qed
  then show ?thesis
    by (simp add: tokenIndexAt_def tokens_applyFix takeWhile_map)
qed

lemma tokenIndexAt_le_length: "tokenIndexAt sc pos \<le> length (tokens sc)"
  by (simp add: tokenIndexAt_def length_takeWhile_le)

lemma getTokenBefore_mem:
  assumes "getTokenBefore sc r = Some t"
  shows "t \<in> set (tokens sc)"
proof -
  from assms have pos: "0 < tokenIndexAt sc (fst r)"
    and t: "t = tokens sc ! (tokenIndexAt sc (fst r) - 1)"
    by (auto simp: getTokenBefore_def Let_def split: if_splits)
  from pos tokenIndexAt_le_length [of sc "fst r"]
  have "tokenIndexAt sc (fst r) - 1 < length (tokens sc)"
    by arith
  then show ?thesis
    unfolding t by (rule nth_mem)
qed

lemma getFirstToken_mem:
  "getFirstToken sc n = Some t \<Longrightarrow> t \<in> set (tokens sc)"
  by (auto simp: getFirstToken_def Let_def split: if_splits)

lemma getTokenBefore_applyFix:
  assumes range: "fst (fix_range rep) \<le> snd (fix_range rep)"
    and toks: "\<forall>t \<in> set (tokensAndComments sc). clearOf rep (tok_range t)"
    and x: "startClear rep (fst r)"
    and r': "fst r' = shiftOffset rep (fst r)"
  shows "getTokenBefore (applyFix rep sc) r' = map_option (shiftToken rep) (getTokenBefore sc r)"
proof -
  have idx: "tokenIndexAt (applyFix rep sc) (fst r') = tokenIndexAt sc (fst r)"
    unfolding r' using range toks x by (rule tokenIndexAt_applyFix)
  have "tokenIndexAt sc (fst r) \<le> length (tokens sc)"
    by (rule tokenIndexAt_le_length)
  then show ?thesis
    by (auto simp: getTokenBefore_def idx Let_def tokens_applyFix)
qed

lemma getFirstToken_applyFix:
  assumes range: "fst (fix_range rep) \<le> snd (fix_range rep)"
    and toks: "\<forall>t \<in> set (tokensAndComments sc). clearOf rep (tok_range t)"
    and n: "clearOf rep (node_range n)"
  shows "getFirstToken (applyFix rep sc) (shiftNode rep n)
           = map_option (shiftToken rep) (getFirstToken sc n)"
proof -
  let ?i = "tokenIndexAt sc (fst (node_range n))"
  have idx: "tokenIndexAt (applyFix rep sc) (shiftOffset rep (fst (node_range n))) = ?i"
    using range toks clearOf_start [OF n] by (rule tokenIndexAt_applyFix)
  show ?thesis
  proof (cases "?i < length (tokens sc)")
    case True
    then have "tokens sc ! ?i \<in> set (tokens sc)"
      by (rule nth_mem)
    with toks have "clearOf rep (tok_range (tokens sc ! ?i))"
      by (blast intro: tokens_clear)
    with n range have "shiftOffset rep (snd (tok_range (tokens sc ! ?i)))
          \<le> shiftOffset rep (snd (node_range n))
        \<longleftrightarrow> snd (tok_range (tokens sc ! ?i)) \<le> snd (node_range n)"
      by (intro shiftOffset_le) (auto simp: clearOf_def)
    with True show ?thesis
      by (simp add: getFirstToken_def idx Let_def tokens_applyFix)
  next
    case False
    then show ?thesis
      by (simp add: getFirstToken_def idx Let_def tokens_applyFix)
  qed
qed

lemma handler_loop_applyFix:
  assumes range: "fst (fix_range rep) \<le> snd (fix_range rep)"
    and toks: "\<forall>t \<in> set (tokensAndComments sc). clearOf rep (tok_range t)"
    and parent: "\<And>p. node_parent right = Some p \<Longrightarrow> clearOf rep (node_range p)"
    and op: "tokOperator \<in> set (tokens sc)"
  shows "handler_loop (applyFix rep sc) (shiftNode rep right)
           (shiftToken rep tokRight) (shiftToken rep tokOperator)
         = map_sum id (map_option (map_prod (shiftToken rep) (shiftToken rep)))
             (handler_loop sc right tokRight tokOperator)"
  using toks parent op
proof (induction sc right tokRight tokOperator rule: handler_loop.induct)
  case (1 sc right tokRight tokOperator)
  have clear: "startClear rep (fst (tok_range tokOperator))"
    using "1.prems"(1,3) by (blast intro: clearOf_start tokens_clear)
  have before: "getTokenBefore (applyFix rep sc) (tok_range (shiftToken rep tokOperator))
      = map_option (shiftToken rep) (getTokenBefore sc (tok_range tokOperator))"
    using range "1.prems"(1) clear by (rule getTokenBefore_applyFix) simp
  show ?case
  proof (cases "tok_value tokOperator = ''(''")
    case False
    then show ?thesis
      by (simp add: handler_loop.simps)
  next
    case paren: True
    show ?thesis
    proof (cases "getTokenBefore sc (tok_range tokOperator)")
      case None
      with paren before show ?thesis
        by (simp add: handler_loop.simps)
    next
      case (Some tokOperator')
      then have mem: "tokOperator' \<in> set (tokens sc)"
        by (rule getTokenBefore_mem)
      show ?thesis
      proof (cases "node_parent right")
        case None
        with paren before Some show ?thesis
          by (simp add: handler_loop.simps [of _ _ _ "shiftToken rep tokOperator"]
                handler_loop.simps [of _ _ _ tokOperator])
      next
        case (Some p)
        have guard: "shiftOffset rep (fst (tok_range tokOperator'))
              \<le> shiftOffset rep (fst (node_range p))
            \<longleftrightarrow> fst (tok_range tokOperator') \<le> fst (node_range p)"
          using range "1.prems"(1) mem "1.prems"(2) [OF Some]
          by (intro shiftOffset_start_le)
             (auto dest!: tokens_clear clearOf_start simp: startClear_def)
        show ?thesis
        proof (cases "fst (tok_range tokOperator') \<le> fst (node_range p)")
          case True
          with paren before \<open>getTokenBefore sc (tok_range tokOperator) = Some tokOperator'\<close>
            Some guard
          show ?thesis
            by (simp add: handler_loop.simps [of _ _ _ "shiftToken rep tokOperator"]
                  handler_loop.simps [of _ _ _ tokOperator])
        next
          case False
          have ih: "handler_loop (applyFix rep sc) (shiftNode rep right)
              (shiftToken rep tokOperator) (shiftToken rep tokOperator')
            = map_sum id (map_option (map_prod (shiftToken rep) (shiftToken rep)))
                (handler_loop sc right tokOperator tokOperator')"
            using paren \<open>getTokenBefore sc (tok_range tokOperator) = Some tokOperator'\<close>
              Some False "1.prems"(1,2) mem
            by (intro "1.IH") auto
          have new: "handler_loop (applyFix rep sc) (shiftNode rep right)
              (shiftToken rep tokRight) (shiftToken rep tokOperator)
            = handler_loop (applyFix rep sc) (shiftNode rep right)
                (shiftToken rep tokOperator) (shiftToken rep tokOperator')"
            using paren before \<open>getTokenBefore sc (tok_range tokOperator) = Some tokOperator'\<close>
              Some guard False
            by (subst handler_loop.simps) simp
          have old: "handler_loop sc right tokRight tokOperator
            = handler_loop sc right tokOperator tokOperator'"
            using paren \<open>getTokenBefore sc (tok_range tokOperator) = Some tokOperator'\<close>
              Some False
            by (subst handler_loop.simps) simp
          show ?thesis
            unfolding new old by (rule ih)
        qed
      qed
    qed
  qed
qed

lemma handler_loop_mem:
  "handler_loop sc right tokRight tokOperator = Inr (Some (tokRight1, tokOperator1))
    \<Longrightarrow> tokOperator \<in> set (tokens sc) \<Longrightarrow> tokOperator1 \<in> set (tokens sc)"
proof (induction sc right tokRight tokOperator rule: handler_loop.induct)
  case (1 sc right tokRight tokOperator)
  show ?case
  proof (cases "tok_value tokOperator = ''(''")
    case False
    with "1.prems" show ?thesis
      by (simp add: handler_loop.simps)
  next
    case True
    with "1.prems"(1) obtain tokOperator' p
      where before: "getTokenBefore sc (tok_range tokOperator) = Some tokOperator'"
        and parent: "node_parent right = Some p"
        and guard: "\<not> fst (tok_range tokOperator') \<le> fst (node_range p)"
        and rest: "handler_loop sc right tokOperator tokOperator'
                     = Inr (Some (tokRight1, tokOperator1))"
      by (subst (asm) handler_loop.simps) (auto split: option.splits if_splits)
    from before have "tokOperator' \<in> set (tokens sc)"
      by (rule getTokenBefore_mem)
    with True before parent guard rest show ?thesis
      by (intro "1.IH") auto
  qed
qed

lemma handler_tokens_applyFix:
  assumes range: "fst (fix_range rep) \<le> snd (fix_range rep)"
    and toks: "\<forall>t \<in> set (tokensAndComments sc). clearOf rep (tok_range t)"
    and node: "clearOf rep (node_range node)"
    and right: "clearOf rep (node_range right)"
    and owner: "node_parent right = Some node"
  shows "handler_tokens (applyFix rep sc) (shiftNode rep node) (shiftNode rep right)
           = map_sum id (map_option (shiftResolved rep)) (handler_tokens sc node right)"
proof (cases "getFirstToken sc right")
  case None
  then show ?thesis
    by (simp add: handler_tokens_def getFirstToken_applyFix [OF range toks right])
next
  case (Some tokRight0)
  note first = Some
  have first': "getFirstToken (applyFix rep sc) (shiftNode rep right)
      = Some (shiftToken rep tokRight0)"
    by (simp add: getFirstToken_applyFix [OF range toks right] first)
  have "tokRight0 \<in> set (tokens sc)"
    using first by (rule getFirstToken_mem)
  with toks have "startClear rep (fst (tok_range tokRight0))"
    by (blast intro: clearOf_start tokens_clear)
  with range toks
  have op0: "getTokenBefore (applyFix rep sc) (tok_range (shiftToken rep tokRight0))
      = map_option (shiftToken rep) (getTokenBefore sc (tok_range tokRight0))"
    by (rule getTokenBefore_applyFix) simp
  have all: "getTokenBefore (applyFix rep sc) (node_range (shiftNode rep node))
      = map_option (shiftToken rep) (getTokenBefore sc (node_range node))"
    using range toks clearOf_start [OF node] by (rule getTokenBefore_applyFix) simp
  show ?thesis
  proof (cases "getTokenBefore sc (tok_range tokRight0)")
    case None
    with first first' op0 show ?thesis
      by (simp add: handler_tokens_def)
  next
    case (Some tokOperator0)
    then have mem0: "tokOperator0 \<in> set (tokens sc)"
      by (rule getTokenBefore_mem)
    have loop: "handler_loop (applyFix rep sc) (shiftNode rep right)
        (shiftToken rep tokRight0) (shiftToken rep tokOperator0)
      = map_sum id (map_option (map_prod (shiftToken rep) (shiftToken rep)))
          (handler_loop sc right tokRight0 tokOperator0)"
      using range toks _ mem0
    proof (rule handler_loop_applyFix)
      fix p assume "node_parent right = Some p"
      with owner node show "clearOf rep (node_range p)" by simp
    qed
    show ?thesis
    proof (cases "handler_loop sc right tokRight0 tokOperator0")
      case (Inl e)
      with first first' op0 Some loop show ?thesis
        by (simp add: handler_tokens_def)
    next
      case (Inr res)
      show ?thesis
      proof (cases res)
        case None
        with Inr first first' op0 Some loop show ?thesis
          by (simp add: handler_tokens_def)
      next
        case (Some pair)
        obtain tokRight1 tokOperator1 where pair: "pair = (tokRight1, tokOperator1)"
          by (cases pair)
        from Inr Some pair
        have res: "handler_loop sc right tokRight0 tokOperator0
            = Inr (Some (tokRight1, tokOperator1))"
          by simp
        then have "tokOperator1 \<in> set (tokens sc)"
          using mem0 by (rule handler_loop_mem)
        with toks have "startClear rep (fst (tok_range tokOperator1))"
          by (blast intro: clearOf_start tokens_clear)
        with range toks
        have left: "getTokenBefore (applyFix rep sc) (tok_range (shiftToken rep tokOperator1))
            = map_option (shiftToken rep) (getTokenBefore sc (tok_range tokOperator1))"
          by (rule getTokenBefore_applyFix) simp
        from first first' op0 \<open>getTokenBefore sc (tok_range tokRight0) = Some tokOperator0\<close>
          loop res left all
        show ?thesis
          by (cases "getTokenBefore sc (tok_range tokOperator1)")
             (simp_all add: handler_tokens_def shiftResolved_def)
      qed
    qed
  qed
qed

lemma firstTokenOfLine_applyFix:
  "firstTokenOfLine (applyFix rep sc) l = map_option (shiftToken rep) (firstTokenOfLine sc l)"
  by (simp add: firstTokenOfLine_def applyFix_def find_map comp_def)

lemma lastTokenOfLine_applyFix:
  "lastTokenOfLine (applyFix rep sc) l = map_option (shiftToken rep) (lastTokenOfLine sc l)"
  by (simp add: lastTokenOfLine_def applyFix_def rev_map find_map comp_def)

lemma needSubtractionIndent_applyFix:
  "needSubtractionIndent (applyFix rep sc) (shiftToken rep tokLeft)
     = needSubtractionIndent sc tokLeft"
proof -
  have "isGreaterThanCloseBracketOfLine (applyFix rep sc) l
      = isGreaterThanCloseBracketOfLine sc l" for l
    by (simp add: isGreaterThanCloseBracketOfLine_def countBrackets_eq applyFix_def
          filter_map comp_def)
  moreover have "hasExclusivelyCloseBracketOfLine (applyFix rep sc) l
      = hasExclusivelyCloseBracketOfLine sc l" for l
    by (simp add: hasExclusivelyCloseBracketOfLine_def applyFix_def list_ex_iff)
  ultimately show ?thesis
    by (cases "lastTokenOfLine sc (line (tok_start tokLeft))")
       (simp_all add: needSubtractionIndent_def lastTokenOfLine_applyFix)
qed

lemma getIndentOfLine_applyFix_other:
  assumes "l \<noteq> line (rep_start rep)" and "1 \<le> line (rep_start rep)"
  shows "getIndentOfLine (applyFix rep sc) Map.empty l = getIndentOfLine sc Map.empty l"
proof (cases "1 \<le> l \<and> l \<le> length (lines sc)")
  case True
  with assms have "l - 1 \<noteq> line (rep_start rep) - 1" by arith
  with True show ?thesis
    by (simp add: getIndentOfLine_def applyFix_def)
next
  case False
  then show ?thesis
    by (auto simp: getIndentOfLine_def applyFix_def)
qed

lemma needAdditionIndent_applyFix:
  assumes other: "line (tok_start tokLeft) \<noteq> line (rep_start rep)"
    and pos: "1 \<le> line (rep_start rep)"
  shows "needAdditionIndent (applyFix rep sc) Map.empty (shiftNode rep node)
           (shiftToken rep tokLeft) (map_option (shiftToken rep) tokBeforeAll)
         = needAdditionIndent sc Map.empty node tokLeft tokBeforeAll"
proof -
  let ?l = "line (tok_start tokLeft)"
  have e: "line (node_start node) = ?l \<Longrightarrow>
      (case getIndentOfLine (applyFix rep sc) Map.empty (line (node_start node)) of
         Inl e \<Rightarrow> Inl e
       | Inr indent \<Rightarrow> Inr (column (node_start (shiftNode rep node)) \<noteq> length indent))
    = (case getIndentOfLine sc Map.empty (line (node_start node)) of
         Inl e \<Rightarrow> Inl e
       | Inr indent \<Rightarrow> Inr (column (node_start node) \<noteq> length indent))"
  proof -
    assume same: "line (node_start node) = ?l"
    with other have "column (node_start (shiftNode rep node)) = column (node_start node)"
      by (intro shiftNode_column) simp
    moreover from same other pos
    have "getIndentOfLine (applyFix rep sc) Map.empty (line (node_start node))
        = getIndentOfLine sc Map.empty (line (node_start node))"
      by (intro getIndentOfLine_applyFix_other) simp_all
    ultimately show ?thesis
      by (simp split: sum.splits)
  qed
  have a: "(case firstTokenOfLine (applyFix rep sc) ?l of
        None \<Rightarrow> False
      | Some f \<Rightarrow> tok_type f = ''Keyword''
                  \<and> tok_value f \<notin> set [''typeof'', ''instanceof'', ''this''])
    = (case firstTokenOfLine sc ?l of
        None \<Rightarrow> False
      | Some f \<Rightarrow> tok_type f = ''Keyword''
                  \<and> tok_value f \<notin> set [''typeof'', ''instanceof'', ''this''])"
    by (cases "firstTokenOfLine sc ?l") (simp_all add: firstTokenOfLine_applyFix)
  have b: "(case firstTokenOfLine (applyFix rep sc) ?l of
        None \<Rightarrow> False
      | Some f \<Rightarrow> tok_type f = ''Identifier'' \<and> tok_value f = ''type''
                  \<and> map_option node_type (node_parent (shiftNode rep node))
                      = Some ''TSTypeAliasDeclaration'')
    = (case firstTokenOfLine sc ?l of
        None \<Rightarrow> False
      | Some f \<Rightarrow> tok_type f = ''Identifier'' \<and> tok_value f = ''type''
                  \<and> map_option node_type (node_parent node) = Some ''TSTypeAliasDeclaration'')"
    by (cases "firstTokenOfLine sc ?l"; cases "node_parent node")
       (simp_all add: firstTokenOfLine_applyFix)
  have c: "valueOrEmpty (lastTokenOfLine (applyFix rep sc) ?l)
      = valueOrEmpty (lastTokenOfLine sc ?l)"
    by (cases "lastTokenOfLine sc ?l")
       (simp_all add: lastTokenOfLine_applyFix valueOrEmpty_def)
  have d1: "valueOrEmpty (map_option (shiftToken rep) tokBeforeAll) = valueOrEmpty tokBeforeAll"
    by (cases tokBeforeAll) (simp_all add: valueOrEmpty_def)
  have d2: "(map_option (\<lambda>t. line (tok_start t)) (firstTokenOfLine (applyFix rep sc) ?l)
        = map_option (\<lambda>t. line (tok_start t)) (map_option (shiftToken rep) tokBeforeAll))
    = (map_option (\<lambda>t. line (tok_start t)) (firstTokenOfLine sc ?l)
        = map_option (\<lambda>t. line (tok_start t)) tokBeforeAll)"
    by (cases "firstTokenOfLine sc ?l"; cases tokBeforeAll)
       (simp_all add: firstTokenOfLine_applyFix)
  have l: "line (tok_start (shiftToken rep tokLeft)) = ?l"
    by simp
  have e': "(if valueOrEmpty (lastTokenOfLine sc ?l) \<in> set [''||'', ''&&'']
              \<and> line (node_start node) = ?l
       then (case getIndentOfLine (applyFix rep sc) Map.empty (line (node_start node)) of
               Inl e \<Rightarrow> Inl e
             | Inr indent \<Rightarrow> Inr (column (node_start (shiftNode rep node)) \<noteq> length indent))
       else Inr False)
    = (if valueOrEmpty (lastTokenOfLine sc ?l) \<in> set [''||'', ''&&'']
              \<and> line (node_start node) = ?l
       then (case getIndentOfLine sc Map.empty (line (node_start node)) of
               Inl e \<Rightarrow> Inl e
             | Inr indent \<Rightarrow> Inr (column (node_start node) \<noteq> length indent))
       else Inr False)"
    using e by (cases "line (node_start node) = ?l") simp_all
  show ?thesis
    unfolding needAdditionIndent_def Let_def l a b c d1 d2
    by (simp only: shiftNode_simps e')
qed

lemma whitespace_target:
  assumes "\<forall>c \<in> set indent. isWhitespace c"
  shows "\<forall>c \<in> set (getTargetIndent opts indent addition subtraction). isWhitespace c"
proof -
  have "\<forall>c \<in> set (indentStr opts). isWhitespace c"
    by (auto simp: indentStr_def isWhitespace_def tab_char_def space_char_def
          split: option.splits indent_option.splits)
  moreover have "set (subtractionIndent opts indent) \<subseteq> set indent"
    by (auto simp: subtractionIndent_def split: option.splits indent_option.splits
          dest: in_set_dropD)
  ultimately show ?thesis
    using assms by (auto simp: getTargetIndent_def)
qed

lemma takeWhile_replaced_prefix:
  assumes "\<forall>c \<in> set new. P c"
  shows "takeWhile P (new @ drop (length (takeWhile P xs)) xs) = new"
proof -
  have "drop (length (takeWhile P xs)) xs = dropWhile P xs"
    by (simp add: dropWhile_eq_drop)
  moreover have "takeWhile P (dropWhile P xs) = []"
    by (induction xs) simp_all
  ultimately show ?thesis
    using assms by simp
qed

text \<open>
  Within a pass a pair is evaluated to a fixed point: on the state it produced, where the
  cache stands for the corrected line, it reports nothing further.
\<close>

lemma handler_idempotent:
  assumes "handler opts sc node right st = Inr st'"
  shows "handler opts sc node right st' = Inr st'"
proof (cases "st' = st")
  case True
  with assms show ?thesis by simp
next
  case False
  from handler_changed [OF assms False] obtain r
    where toks: "handler_tokens sc node right = Inr (Some r)"
      and check: "handler_check opts sc node r st = Inr st'"
    by blast
  from assms False have node: "line (node_start node) \<noteq> line (node_end node)"
    by (auto simp: handler_def)
  let ?lr = "line (tok_start (tokenRight r))" and ?ll = "line (tok_start (tokenLeft r))"
  from check False obtain needAddition indentLeft indentRight
    where lines: "?lr \<noteq> ?ll"
      and addition: "needAdditionIndent sc (indentCache st) node (tokenLeft r) (tokenBeforeAll r)
                       = Inr needAddition"
      and left: "getIndentOfLine sc (indentCache st) ?ll = Inr indentLeft"
      and st': "st' = \<lparr>indentCache = (indentCache st)(?lr \<mapsto>
                         getTargetIndent opts indentLeft needAddition
                           (needSubtractionIndent sc (tokenLeft r))),
                       reports = reports st @ [makeReport opts sc (tokenRight r) indentRight
                         (getTargetIndent opts indentLeft needAddition
                           (needSubtractionIndent sc (tokenLeft r)))]\<rparr>"
    by (auto simp: handler_check_def Let_def split: if_splits sum.splits)
  let ?target = "getTargetIndent opts indentLeft needAddition
      (needSubtractionIndent sc (tokenLeft r))"
  have cache': "indentCache st' = (indentCache st)(?lr \<mapsto> ?target)"
    by (simp add: st')
  have other: "getIndentOfLine sc (indentCache st') ?ll = getIndentOfLine sc (indentCache st) ?ll"
    using lines by (simp add: getIndentOfLine_def cache')
  have addition': "needAdditionIndent sc (indentCache st') node (tokenLeft r) (tokenBeforeAll r)
      = needAdditionIndent sc (indentCache st) node (tokenLeft r) (tokenBeforeAll r)"
    unfolding needAdditionIndent_def Let_def using other by auto
  have right': "getIndentOfLine sc (indentCache st') ?lr = Inr ?target"
    by (simp add: getIndentOfLine_def cache')
  have "handler_check opts sc node r st' = Inr st'"
    using lines addition left
    by (simp add: handler_check_def addition' other right' Let_def)
  with toks node show ?thesis
    by (simp add: handler_def)
qed

text \<open>\<open>applyFix\<close> changes the lines as the fix's replacement changes the text.\<close>

lemma joinLines_Cons: "ls \<noteq> [] \<Longrightarrow> joinLines (l # ls) = l @ CHR 0x0A # joinLines ls"
  by (cases ls) simp_all

lemma joinLines_update:
  "i < length ls \<Longrightarrow> old \<le> length (ls ! i)
    \<Longrightarrow> joinLines (ls[i := new @ drop old (ls ! i)])
        = take (sum_list (map (\<lambda>l. length l + 1) (take i ls))) (joinLines ls)
            @ new
            @ drop (sum_list (map (\<lambda>l. length l + 1) (take i ls)) + old) (joinLines ls)"
proof (induction ls arbitrary: i)
  case Nil
  then show ?case by simp
next
  case (Cons l ls)
  show ?case
  proof (cases i)
    case 0
    with Cons.prems show ?thesis
      by (cases ls) simp_all
  next
    case (Suc j)
    with Cons.prems have j: "j < length ls" "old \<le> length (ls ! j)" and ne: "ls \<noteq> []"
      by auto
    from ne have ne': "ls[j := new @ drop old (ls ! j)] \<noteq> []"
      by simp
    show ?thesis
      using Cons.IH [OF j]
      by (simp add: Suc joinLines_Cons [OF ne] joinLines_Cons [OF ne'])
  qed
qed

lemma applyFix_text:
  assumes "1 \<le> line (rep_start rep)" and "line (rep_start rep) \<le> length (lines sc)"
    and "column (rep_end rep) \<le> length (lines sc ! (line (rep_start rep) - 1))"
    and "fix_range rep
           = (getIndexFromLoc sc \<lparr>line = line (rep_start rep), column = 0\<rparr>,
              getIndexFromLoc sc \<lparr>line = line (rep_start rep), column = column (rep_end rep)\<rparr>)"
  shows "sourceText (applyFix rep sc)
           = replaceTextRange (sourceText sc) (fix_range rep) (fix_text rep)"
  using assms
  by (simp add: sourceText_def applyFix_def replaceTextRange_def getIndexFromLoc_def
        joinLines_update)









section \<open>The claims\<close>

subsection \<open>C1\<close>




subsection \<open>C2\<close>

text \<open>
  C2, as the specification words it, fails: the code drops the \<^emph>\<open>leading\<close> characters
  of the left indentation, so on an indentation that mixes a tab and a space the result
  is not the one with the trailing unit removed, and in tab mode the character dropped
  from an indentation of spaces is a space.
\<close>

theorem getTargetIndent_trailing_counterexample:
  "getTargetIndent (Some (Num 1)) [tab_char, space_char] False True
     \<noteq> spec_targetIndent (Some (Num 1)) [tab_char, space_char] False True
   \<and> [space_char, space_char]
        \<noteq> [tab_char] @ getTargetIndent (Some Tab) [space_char, space_char] False True
   \<and> [space_char, space_char]
        \<noteq> getTargetIndent (Some Tab) [space_char, space_char] False True @ [tab_char]"
  by (simp add: getTargetIndent_def spec_targetIndent_def subtractionIndent_def
        removeTrailingUnit_def indentWidth_def tab_char_def space_char_def)

text \<open>
  C2 (amended): with addition and without subtraction the target is the left indentation
  followed by one indent unit (N spaces, 2 when the option is absent, or one tab); with
  subtraction and without addition it is the left indentation without its first
  unit-width characters, whatever they are (the empty string when the indentation is
  shorter); with both or neither it is the left indentation unchanged.  Dropping the
  leading characters is the same as removing a trailing unit whenever the left
  indentation consists of the unit character only.  In tab mode the unit added is exactly
  one tab character and the subtraction drops exactly one character.
\<close>

theorem getTargetIndent_amended:
  "(addition \<and> \<not> subtraction \<longrightarrow>
      getTargetIndent opts indent addition subtraction
        = indent @ replicate (indentWidth opts) (unitChar opts))
   \<and> (subtraction \<and> \<not> addition \<longrightarrow>
      getTargetIndent opts indent addition subtraction = drop (indentWidth opts) indent)
   \<and> ((addition \<longleftrightarrow> subtraction) \<longrightarrow>
      getTargetIndent opts indent addition subtraction = indent)
   \<and> (set indent \<subseteq> {unitChar opts} \<longrightarrow>
      drop (indentWidth opts) indent = removeTrailingUnit opts indent)
   \<and> getTargetIndent (Some Tab) indent True False = indent @ [tab_char]
   \<and> getTargetIndent (Some Tab) indent False True = drop 1 indent"
proof -
  have unit: "indentStr opts = replicate (indentWidth opts) (unitChar opts)"
    by (simp add: indentStr_def indentWidth_def unitChar_def
          split: option.splits indent_option.splits)
  have sub: "subtractionIndent opts indent = drop (indentWidth opts) indent"
    by (simp add: subtractionIndent_def indentWidth_def
          split: option.splits indent_option.splits)
  have uniform: "set indent \<subseteq> {unitChar opts} \<longrightarrow>
      drop (indentWidth opts) indent = removeTrailingUnit opts indent"
    unfolding removeTrailingUnit_def by (blast intro: drop_eq_take_of_uniform)
  have tab: "indentStr (Some Tab) = [tab_char]" "subtractionIndent (Some Tab) indent = drop 1 indent"
    by (simp_all add: indentStr_def subtractionIndent_def)
  show ?thesis
    using uniform
    by (auto simp: getTargetIndent_def unit sub tab)
qed

theorem getTargetIndent_amended_witness:
  "getTargetIndent (Some (Num 2)) ''  '' True False = ''    ''
   \<and> getTargetIndent (Some (Num 2)) ''    '' False True = ''  ''
   \<and> getTargetIndent (Some (Num 2)) '' '' False True = ''''
   \<and> getTargetIndent None ''  '' True True = ''  ''
   \<and> drop 2 ''    '' = removeTrailingUnit (Some (Num 2)) ''    ''
   \<and> getTargetIndent (Some Tab) [tab_char] True False = [tab_char, tab_char]
   \<and> getTargetIndent (Some Tab) [tab_char, tab_char] False True = [tab_char]"
  using getTargetIndent_amended [of True False "Some (Num 2)" "''  ''"]
    getTargetIndent_amended [of False True "Some (Num 2)" "''    ''"]
    getTargetIndent_amended [of False True "Some (Num 2)" "'' ''"]
    getTargetIndent_amended [of True True None "''  ''"]
    getTargetIndent_amended [of False False "Some Tab" "[tab_char]"]
    getTargetIndent_amended [of False False "Some Tab" "[tab_char, tab_char]"]
  by (simp add: indentWidth_def unitChar_def space_char_def tab_char_def
        removeTrailingUnit_def eval_nat_numeral)

subsection \<open>C3\<close>

text \<open>
  C3: let \<open>i\<close> be the index of the operand's first token and \<open>k\<close> the number of \<open>(\<close>
  tokens immediately before it.  The walk looks at the tokens before each skipped
  parenthesis, at the indices \<open>i - 1 - j\<close> for \<open>j\<close> from 1 to \<open>k\<close>.  If one of them
  starts at or before the start of the owning node, the pair is given up: the handler
  returns the state it was given, with no report and no cache update.  Otherwise the walk
  stops at the first token before the operand that is not \<open>(\<close>: it is the operator, the
  outermost skipped parenthesis (or the operand's first token, when there is none) is the
  operand token, and the token before the operator is the left-context token.
\<close>

theorem handler_walk:
  assumes ordered: "tokensOrdered sc"
    and owner: "node_parent right = Some node"
    and first: "getFirstToken sc right = Some t"
  defines "i \<equiv> tokenIndexAt sc (fst (node_range right))"
  defines "k \<equiv> parensBefore (tokens sc) i"
  shows "((\<exists>j \<in> {1..k}. j < i
              \<and> fst (tok_range (tokens sc ! (i - 1 - j))) \<le> fst (node_range node))
          \<longrightarrow> handler_tokens sc node right = Inr None
              \<and> handler opts sc node right st = Inr st)
       \<and> (k + 1 < i
           \<and> (\<forall>j \<in> {1..k}.
                  fst (node_range node) < fst (tok_range (tokens sc ! (i - 1 - j))))
          \<longrightarrow> handler_tokens sc node right
                = Inr (Some \<lparr>tokenRight = tokens sc ! (i - k),
                             tokenOperator = tokens sc ! (i - 1 - k),
                             tokenBeforeAll = getTokenBefore sc (node_range node),
                             tokenLeft = tokens sc ! (i - 2 - k)\<rparr>)
              \<and> tok_value (tokens sc ! (i - 1 - k)) \<noteq> ''(''
              \<and> (\<forall>m \<in> {i - k..<i}. tok_value (tokens sc ! m) = ''(''))"
proof (intro conjI impI)
  assume "\<exists>j \<in> {1..k}. j < i
            \<and> fst (tok_range (tokens sc ! (i - 1 - j))) \<le> fst (node_range node)"
  then obtain j where "1 \<le> j" "j \<le> k" "j < i"
    "fst (tok_range (tokens sc ! (i - 1 - j))) \<le> fst (node_range node)"
    by auto
  then show none: "handler_tokens sc node right = Inr None"
    unfolding i_def k_def by (intro handler_tokens_aborts [OF ordered owner first])
  then show "handler opts sc node right st = Inr st"
    by (simp add: handler_def)
next
  assume skip: "k + 1 < i
         \<and> (\<forall>j \<in> {1..k}.
                fst (node_range node) < fst (tok_range (tokens sc ! (i - 1 - j))))"
  then show "handler_tokens sc node right
        = Inr (Some \<lparr>tokenRight = tokens sc ! (i - k),
                     tokenOperator = tokens sc ! (i - 1 - k),
                     tokenBeforeAll = getTokenBefore sc (node_range node),
                     tokenLeft = tokens sc ! (i - 2 - k)\<rparr>)"
    unfolding i_def k_def by (intro handler_tokens_skips [OF ordered owner first]) auto
  from skip have "k < i" by simp
  then show "tok_value (tokens sc ! (i - 1 - k)) \<noteq> ''(''"
    unfolding k_def by (rule parensBefore_stop)
  show "\<forall>m \<in> {i - k..<i}. tok_value (tokens sc ! m) = ''(''"
    unfolding k_def by (auto intro: parensBefore_parens)
qed

theorem handler_walk_witness:
  "tokensOrdered alias_source \<and> node_parent alias_A = Some alias_union
   \<and> getFirstToken alias_source alias_A = Some (mkToken ''Identifier'' ''A'' 10 1 10)
   \<and> handler_tokens alias_source alias_union alias_A = Inr None
   \<and> handler None alias_source alias_union alias_A initialState = Inr initialState
   \<and> tokensOrdered paren_source \<and> node_parent paren_b = Some paren_sum
   \<and> getFirstToken paren_source paren_b = Some (mkToken ''Identifier'' ''b'' 8 3 0)
   \<and> handler_tokens paren_source paren_sum paren_b
       = Inr (Some \<lparr>tokenRight = mkToken ''Punctuator'' ''('' 6 2 2,
                    tokenOperator = mkToken ''Punctuator'' ''+'' 2 1 2,
                    tokenBeforeAll = None,
                    tokenLeft = mkToken ''Identifier'' ''a'' 0 1 0\<rparr>)"
proof -
  have o1: "tokensOrdered alias_source"
    by (simp add: tokensOrdered_def host_defs alias_source_def)
  have p1: "node_parent alias_A = Some alias_union"
    by (simp add: alias_A_def mkNode_def)
  have f1: "getFirstToken alias_source alias_A = Some (mkToken ''Identifier'' ''A'' 10 1 10)"
    by (simp add: host_defs alias_source_def alias_A_def)
  have i1: "tokenIndexAt alias_source (fst (node_range alias_A)) = 4"
    by (simp add: host_defs alias_source_def alias_A_def)
  have k1: "parensBefore (tokens alias_source) 4 = 1"
    by (simp add: eval_nat_numeral host_defs alias_source_def)
  have a1: "\<exists>j \<in> {1..1}. j < 4
      \<and> fst (tok_range (tokens alias_source ! (4 - 1 - j))) \<le> fst (node_range alias_union)"
    by (simp add: eval_nat_numeral host_defs alias_source_def alias_union_def)
  have o2: "tokensOrdered paren_source"
    by (simp add: tokensOrdered_def host_defs paren_source_def)
  have p2: "node_parent paren_b = Some paren_sum"
    by (simp add: paren_b_def mkNode_def)
  have f2: "getFirstToken paren_source paren_b = Some (mkToken ''Identifier'' ''b'' 8 3 0)"
    by (simp add: host_defs paren_source_def paren_b_def)
  have i2: "tokenIndexAt paren_source (fst (node_range paren_b)) = 3"
    by (simp add: host_defs paren_source_def paren_b_def)
  have k2: "parensBefore (tokens paren_source) 3 = 1"
    by (simp add: eval_nat_numeral host_defs paren_source_def)
  have a2: "(1::nat) + 1 < 3 \<and> (\<forall>j \<in> {1..1}.
      fst (node_range paren_sum) < fst (tok_range (tokens paren_source ! (3 - 1 - j))))"
    by (simp add: eval_nat_numeral host_defs paren_source_def paren_sum_def)
  have before: "getTokenBefore paren_source (node_range paren_sum) = None"
    by (simp add: host_defs paren_source_def paren_sum_def)
  have toks: "tokens paren_source ! (3 - 1) = mkToken ''Punctuator'' ''('' 6 2 2"
    "tokens paren_source ! (3 - 1 - 1) = mkToken ''Punctuator'' ''+'' 2 1 2"
    "tokens paren_source ! (3 - 2 - 1) = mkToken ''Identifier'' ''a'' 0 1 0"
    by (simp_all add: eval_nat_numeral tokens_def isComment_def paren_source_def mkToken_def)
  from handler_walk [OF o1 p1 f1, of None initialState] a1
  have r1: "handler_tokens alias_source alias_union alias_A = Inr None
      \<and> handler None alias_source alias_union alias_A initialState = Inr initialState"
    unfolding i1 k1 by blast
  from handler_walk [OF o2 p2 f2, of None initialState] a2
  have r2: "handler_tokens paren_source paren_sum paren_b
       = Inr (Some \<lparr>tokenRight = mkToken ''Punctuator'' ''('' 6 2 2,
                    tokenOperator = mkToken ''Punctuator'' ''+'' 2 1 2,
                    tokenBeforeAll = None,
                    tokenLeft = mkToken ''Identifier'' ''a'' 0 1 0\<rparr>)"
    unfolding i2 k2 before toks by blast
  from o1 p1 f1 r1 o2 p2 f2 r2 show ?thesis
    by blast
qed

subsection \<open>C4\<close>

text \<open>
  C4: a pair whose owning node starts and ends on one line, and a pair whose left-context
  token and operand token start on the same line, leave the state as it was, whatever the
  indentation: nothing is reported and nothing is cached.
\<close>

theorem handler_skips_pair:
  "(line (node_start node) = line (node_end node)
      \<longrightarrow> handler opts sc node right st = Inr st)
   \<and> (handler_tokens sc node right = Inr (Some r)
       \<and> line (tok_start (tokenLeft r)) = line (tok_start (tokenRight r))
      \<longrightarrow> handler opts sc node right st = Inr st)"
  by (simp add: handler_def handler_check_def)

theorem handler_skips_pair_witness:
  "line (node_start sum_product) = line (node_end sum_product)
   \<and> handler (Some (Num 2)) sum_source sum_product sum_d initialState = Inr initialState
   \<and> line (node_start sum_outer) \<noteq> line (node_end sum_outer)
   \<and> handler_tokens sum_source sum_outer sum_product = Inr (Some sum_resolved)
   \<and> line (tok_start (tokenLeft sum_resolved)) = line (tok_start (tokenRight sum_resolved))
   \<and> handler (Some (Num 2)) sum_source sum_outer sum_product initialState = Inr initialState"
proof -
  have single: "line (node_start sum_product) = line (node_end sum_product)"
    and multi: "line (node_start sum_outer) \<noteq> line (node_end sum_outer)"
    by (simp_all add: sum_product_def sum_outer_def mkNode_def)
  have toks: "handler_tokens sum_source sum_outer sum_product = Inr (Some sum_resolved)"
    by (simp add: rule_defs host_defs sum_source_def sum_outer_def sum_product_def
          sum_resolved_def)
  have same: "line (tok_start (tokenLeft sum_resolved))
      = line (tok_start (tokenRight sum_resolved))"
    by (simp add: sum_resolved_def mkToken_def)
  from handler_skips_pair [of sum_product "Some (Num 2)" sum_source sum_d initialState]
    handler_skips_pair [of sum_outer "Some (Num 2)" sum_source sum_product initialState
      sum_resolved]
    single multi toks same
  show ?thesis
    by blast
qed

subsection \<open>C5\<close>

text \<open>
  C5, as the specification words it, fails: the code scans \<open>tokensAndComments\<close>, so a
  comment on the line is an entry that is not a closing bracket.  In \<open>comment_source\<close>
  the left-context line holds a comment and \<open>)\<close>: the code asks for subtraction and
  reports the operand line, while with comments excluded the line consists of closing
  brackets only.
\<close>

theorem needSubtraction_comment_counterexample:
  "needSubtractionIndent comment_source (mkToken ''Punctuator'' '')'' 9 2 6)
   \<and> \<not> spec_needSubtraction comment_source 2
   \<and> map_sum id (\<lambda>st. map fix_text (reports st))
        (runRule (Some (Num 2)) comment_source [BinaryExpression comment_sum comment_b])
       = Inr ['''']"
  by (simp add: rule_defs host_defs spec_needSubtraction_def comment_source_def
        comment_sum_def comment_b_def)

text \<open>
  C5 (amended): \<open>needSubtractionIndent\<close> is true exactly when the last token or comment
  ending on the left-context line has the value \<open>)\<close>, more entries with the value \<open>)\<close>
  than entries with the value \<open>(\<close> start on the line, and some entry starting on the
  line has a value other than \<open>)\<close>, \<open>}\<close>, \<open>]\<close>; the entries are the tokens and the
  comments alike.
\<close>

theorem needSubtractionIndent_amended:
  "needSubtractionIndent sc tokLeft
     = amended_needSubtraction sc (line (tok_start tokLeft))"
  by (cases "lastTokenOfLine sc (line (tok_start tokLeft))")
     (simp_all add: needSubtractionIndent_def amended_needSubtraction_def
        isGreaterThanCloseBracketOfLine_def countBrackets_eq
        hasExclusivelyCloseBracketOfLine_all)

subsection \<open>C6\<close>




subsection \<open>C7\<close>

text \<open>
  C7, as stated, fails.  In \<open>chain_source\<close> the outer expression is visited first and
  finds line 3 in agreement with the uncorrected line 2; the inner expression then has
  line 2 indented.  The pass reports one fix; applying it gives \<open>chain_fixed_source\<close>,
  and a pass over that file reports line 3.
\<close>

theorem rerun_counterexample:
  "runRule (Some (Num 2)) chain_source chain_visits = Inr chain_state
   \<and> reports chain_state = [chain_report]
   \<and> sourceText chain_fixed_source
       = replaceTextRange (sourceText chain_source) (fix_range chain_report)
           (fix_text chain_report)
   \<and> applyFix chain_report chain_source = chain_fixed_source
   \<and> map (shiftNode chain_report) [chain_outer, chain_c, chain_inner, chain_b]
       = [chain_fixed_outer, chain_fixed_c, chain_fixed_inner, chain_fixed_b]
   \<and> map_sum id (\<lambda>st. map (\<lambda>r. (rep_start r, fix_text r)) (reports st))
       (runRule (Some (Num 2)) chain_fixed_source chain_fixed_visits)
     = Inr [(\<lparr>line = 3, column = 0\<rparr>, ''  '')]"
proof -
  have first: "runRule (Some (Num 2)) chain_source chain_visits = Inr chain_state"
    by (simp add: rule_defs host_defs chain_source_def chain_visits_def chain_outer_def
          chain_inner_def chain_b_def chain_c_def chain_declarator_def chain_state_def
          chain_report_def replicate_two)
  have replaced: "sourceText chain_fixed_source
      = replaceTextRange (sourceText chain_source) (fix_range chain_report)
          (fix_text chain_report)"
    by (simp add: sourceText_def replaceTextRange_def chain_source_def
          chain_fixed_source_def chain_report_def)
  have source: "applyFix chain_report chain_source = chain_fixed_source"
    by (simp add: applyFix_def shiftToken_def shiftOffset_def shiftPosition_def
          chain_report_def chain_source_def chain_fixed_source_def mkToken_def)
  have nodes: "map (shiftNode chain_report) [chain_outer, chain_c, chain_inner, chain_b]
      = [chain_fixed_outer, chain_fixed_c, chain_fixed_inner, chain_fixed_b]"
    by (simp add: shiftOffset_def shiftPosition_def chain_report_def mkNode_def
          chain_declarator_def chain_outer_def chain_c_def chain_inner_def chain_b_def
          chain_fixed_declarator_def chain_fixed_outer_def chain_fixed_c_def
          chain_fixed_inner_def chain_fixed_b_def)
  have second: "map_sum id (\<lambda>st. map (\<lambda>r. (rep_start r, fix_text r)) (reports st))
       (runRule (Some (Num 2)) chain_fixed_source chain_fixed_visits)
     = Inr [(\<lparr>line = 3, column = 0\<rparr>, ''  '')]"
    by (simp add: rule_defs host_defs chain_fixed_source_def chain_fixed_visits_def
          chain_fixed_outer_def chain_fixed_inner_def chain_fixed_b_def chain_fixed_c_def
          chain_fixed_declarator_def replicate_two)
  from first replaced source nodes second show ?thesis
    by (simp add: chain_state_def)
qed

text \<open>
  C7 (amended): idempotence holds pair by pair.  When the evaluation of a pair on a fresh
  cache reports a fix, then on the file with that fix applied the evaluation of the same
  pair on a fresh cache reports nothing and caches nothing.  (For all pairs of a file
  together it fails, as above: a pair evaluated before its left-context line was
  corrected has computed its target from the uncorrected line.)
\<close>

theorem fix_settles_pair:
  assumes owner: "node_parent right = Some node"
    and run: "handler opts sc node right initialState = Inr st'"
    and rep: "reports st' = [rep]"
    and toks: "\<forall>t \<in> set (tokensAndComments sc). clearOf rep (tok_range t)"
    and node: "clearOf rep (node_range node)"
    and right: "clearOf rep (node_range right)"
  shows "handler opts (applyFix rep sc) (shiftNode rep node) (shiftNode rep right) initialState
           = Inr initialState
     \<and> sourceText (applyFix rep sc)
           = replaceTextRange (sourceText sc) (fix_range rep) (fix_text rep)"
proof -
  from rep have changed: "st' \<noteq> initialState"
    by (auto simp: initialState_def)
  from handler_changed [OF run changed] obtain r
    where resolved: "handler_tokens sc node right = Inr (Some r)"
      and check: "handler_check opts sc node r initialState = Inr st'"
    by blast
  from run changed have multi: "line (node_start node) \<noteq> line (node_end node)"
    by (auto simp: handler_def)
  let ?lr = "line (tok_start (tokenRight r))" and ?ll = "line (tok_start (tokenLeft r))"
  from check changed obtain needAddition indentLeft indentRight
    where lines: "?lr \<noteq> ?ll"
      and addition: "needAdditionIndent sc Map.empty node (tokenLeft r) (tokenBeforeAll r)
                       = Inr needAddition"
      and left: "getIndentOfLine sc Map.empty ?ll = Inr indentLeft"
      and indent: "getIndentOfLine sc Map.empty ?lr = Inr indentRight"
      and st': "st' = \<lparr>indentCache = Map.empty(?lr \<mapsto>
                         getTargetIndent opts indentLeft needAddition
                           (needSubtractionIndent sc (tokenLeft r))),
                       reports = [makeReport opts sc (tokenRight r) indentRight
                         (getTargetIndent opts indentLeft needAddition
                           (needSubtractionIndent sc (tokenLeft r)))]\<rparr>"
    by (auto simp: handler_check_def Let_def initialState_def split: if_splits sum.splits)
  let ?target = "getTargetIndent opts indentLeft needAddition
      (needSubtractionIndent sc (tokenLeft r))"
  from rep st' have rep_eq: "rep = makeReport opts sc (tokenRight r) indentRight ?target"
    by simp
  then have rep_line: "line (rep_start rep) = ?lr"
    and rep_old: "column (rep_end rep) = length indentRight"
    and rep_text: "fix_text rep = ?target"
    and range: "fst (fix_range rep) \<le> snd (fix_range rep)"
    by (simp_all add: makeReport_def Let_def getIndexFromLoc_def)
  from indent have inside: "1 \<le> ?lr" "?lr \<le> length (lines sc)"
    and raw: "indentRight = takeWhile isWhitespace (lines sc ! (?lr - 1))"
    by (auto simp: getIndentOfLine_def split: if_splits)
  from left have "\<forall>c \<in> set indentLeft. isWhitespace c"
    by (auto simp: getIndentOfLine_def split: if_splits dest: set_takeWhileD)
  then have white: "\<forall>c \<in> set ?target. isWhitespace c"
    by (rule whitespace_target)
  have resolved': "handler_tokens (applyFix rep sc) (shiftNode rep node) (shiftNode rep right)
      = Inr (Some (shiftResolved rep r))"
    by (simp add: handler_tokens_applyFix [OF range toks node right owner] resolved)
  have other: "?ll \<noteq> line (rep_start rep)" and pos: "1 \<le> line (rep_start rep)"
    using lines inside by (simp_all add: rep_line)
  have addition': "needAdditionIndent (applyFix rep sc) Map.empty (shiftNode rep node)
      (shiftToken rep (tokenLeft r)) (map_option (shiftToken rep) (tokenBeforeAll r))
    = Inr needAddition"
    by (simp add: needAdditionIndent_applyFix [OF other pos] addition)
  have left': "getIndentOfLine (applyFix rep sc) Map.empty ?ll = Inr indentLeft"
    by (simp add: getIndentOfLine_applyFix_other [OF other pos] left)
  have "getIndentOfLine (applyFix rep sc) Map.empty ?lr
      = Inr (takeWhile isWhitespace (?target @ drop (length indentRight) (lines sc ! (?lr - 1))))"
    using inside
    by (simp add: getIndentOfLine_def applyFix_def rep_line rep_old rep_text)
  also have "takeWhile isWhitespace (?target @ drop (length indentRight) (lines sc ! (?lr - 1)))
      = ?target"
    unfolding raw using white by (rule takeWhile_replaced_prefix)
  finally have indent': "getIndentOfLine (applyFix rep sc) Map.empty ?lr = Inr ?target" .
  have "handler_check opts (applyFix rep sc) (shiftNode rep node) (shiftResolved rep r)
      initialState = Inr initialState"
    using lines
    by (simp add: handler_check_def shiftResolved_def initialState_def addition' left' indent'
          needSubtractionIndent_applyFix)
  with multi resolved'
  have rerun: "handler opts (applyFix rep sc) (shiftNode rep node) (shiftNode rep right)
      initialState = Inr initialState"
    by (simp add: handler_def)
  have "length indentRight \<le> length (lines sc ! (?lr - 1))"
    unfolding raw by (rule length_takeWhile_le)
  with inside have "sourceText (applyFix rep sc)
      = replaceTextRange (sourceText sc) (fix_range rep) (fix_text rep)"
    by (intro applyFix_text) (simp_all add: rep_line rep_old rep_eq makeReport_def Let_def)
  with rerun show ?thesis
    by simp
qed

theorem fix_settles_pair_witness:
  "node_parent chain_b = Some chain_inner
   \<and> handler (Some (Num 2)) chain_source chain_inner chain_b initialState = Inr chain_state
   \<and> reports chain_state = [chain_report]
   \<and> applyFix chain_report chain_source = chain_fixed_source
   \<and> shiftNode chain_report chain_inner = chain_fixed_inner
   \<and> shiftNode chain_report chain_b = chain_fixed_b
   \<and> handler (Some (Num 2)) chain_fixed_source chain_fixed_inner chain_fixed_b initialState
       = Inr initialState
   \<and> sourceText chain_fixed_source
       = replaceTextRange (sourceText chain_source) (15, 15) ''  ''"
proof -
  have owner: "node_parent chain_b = Some chain_inner"
    by (simp add: chain_b_def mkNode_def)
  have run: "handler (Some (Num 2)) chain_source chain_inner chain_b initialState
      = Inr chain_state"
    by (simp add: rule_defs host_defs chain_source_def chain_outer_def chain_inner_def
          chain_b_def chain_declarator_def chain_state_def chain_report_def replicate_two)
  have rep: "reports chain_state = [chain_report]"
    by (simp add: chain_state_def)
  have toks: "\<forall>t \<in> set (tokensAndComments chain_source). clearOf chain_report (tok_range t)"
    by (simp add: clearOf_def chain_source_def chain_report_def mkToken_def)
  have node: "clearOf chain_report (node_range chain_inner)"
    and right: "clearOf chain_report (node_range chain_b)"
    by (simp_all add: clearOf_def chain_report_def chain_inner_def chain_b_def mkNode_def)
  have source: "applyFix chain_report chain_source = chain_fixed_source"
    by (simp add: applyFix_def shiftToken_def shiftOffset_def shiftPosition_def
          chain_report_def chain_source_def chain_fixed_source_def mkToken_def)
  have nodes: "shiftNode chain_report chain_inner = chain_fixed_inner"
    "shiftNode chain_report chain_b = chain_fixed_b"
    by (simp_all add: shiftOffset_def shiftPosition_def chain_report_def mkNode_def
          chain_declarator_def chain_outer_def chain_inner_def chain_b_def
          chain_fixed_declarator_def chain_fixed_outer_def chain_fixed_inner_def
          chain_fixed_b_def)
  have range: "fix_range chain_report = (15, 15)" "fix_text chain_report = ''  ''"
    by (simp_all add: chain_report_def)
  from fix_settles_pair [OF owner run rep toks node right] owner run rep source nodes
  show ?thesis
    by (simp add: range)
qed

subsection \<open>C8\<close>

text \<open>
  C8 fails on the code: the non-null assertions on the tokens found by
  \<open>getTokenBefore\<close> check nothing at run time.  For the file \<open>assertion_source\<close> the
  token before the first member of the union is \<open><\<close>, the first token of the file;
  no token precedes it, \<open>tokenLeft\<close> is \<open>null\<close>, and reading \<open>tokenLeft.loc\<close> throws.
\<close>

theorem handler_faults_at_file_start:
  "handler opts assertion_source assertion_union assertion_A initialState = Inl TypeError
   \<and> runRule opts assertion_source [TSUnionType assertion_union [assertion_A, assertion_B]]
       = Inl TypeError"
  by (simp add: rule_defs host_defs assertion_source_def assertion_union_def
        assertion_A_def assertion_B_def)

subsection \<open>C9\<close>

text \<open>
  C9, as stated, fails: the target is built from the left-context line's indentation as
  it stands in the file.  With a unit of two spaces and a left-context line indented by a
  tab (\<open>if_source\<close>), the fix text and the cache entry are a tab followed by two spaces.
\<close>

theorem emitted_indentation_counterexample:
  "map_sum id (\<lambda>st. (map fix_text (reports st), indentCache st 2))
       (runRule (Some (Num 2)) if_source [LogicalExpression if_test if_b])
     = Inr ([[tab_char, space_char, space_char]], Some [tab_char, space_char, space_char])
   \<and> \<not> onlyUnit (Some (Num 2)) [tab_char, space_char, space_char]"
  by (simp add: rule_defs host_defs onlyUnit_def unitChar_def if_source_def if_test_def
        if_b_def replicate_two)

text \<open>
  C9 (amended): when the leading whitespace of every line of the file consists of the
  configured unit character only, so does every target indentation that a pass writes
  into a fix or records in the cache.
\<close>

theorem unit_indentation_kept:
  assumes "cleanSource opts sc" and "runRule opts sc vs = Inr st"
  shows "cleanState opts st"
proof -
  have "cleanState opts initialState"
    by (simp add: cleanState_def initialState_def)
  with assms show ?thesis
    unfolding runRule_def by (blast intro: traverse_clean)
qed

theorem unit_indentation_kept_witness:
  "cleanSource (Some (Num 2)) chain_source
   \<and> runRule (Some (Num 2)) chain_source chain_visits = Inr chain_state
   \<and> cleanState (Some (Num 2)) chain_state
   \<and> map fix_text (reports chain_state) = [''  '']"
proof -
  have source: "cleanSource (Some (Num 2)) chain_source"
    by (simp add: cleanSource_def onlyUnit_def isWhitespace_def chain_source_def)
  have run: "runRule (Some (Num 2)) chain_source chain_visits = Inr chain_state"
    by (simp add: rule_defs host_defs chain_source_def chain_visits_def chain_outer_def
          chain_inner_def chain_b_def chain_c_def chain_declarator_def chain_state_def
          chain_report_def replicate_two)
  from unit_indentation_kept [OF source run] source run show ?thesis
    by (simp add: chain_state_def chain_report_def)
qed

subsection \<open>C10\<close>

text \<open>
  C10: when the walk skips at least one \<open>(\<close> and the pair is reported, everything is
  placed on the line of the outermost skipped parenthesis, the token at index \<open>i - k\<close>:
  the indentation compared is that line's, the report and the offsets of its fix span
  that line's leading columns, and the cache entry is made under that line number.  The
  line of the operand's own first token (index \<open>i\<close>) plays no part; in \<open>paren_source\<close>
  it is line 3 while the report is on line 2.
\<close>

theorem handler_reports_on_paren_line:
  assumes ordered: "tokensOrdered sc"
    and owner: "node_parent right = Some node"
    and first: "getFirstToken sc right = Some t"
  defines "i \<equiv> tokenIndexAt sc (fst (node_range right))"
  defines "k \<equiv> parensBefore (tokens sc) i"
  defines "paren \<equiv> tokens sc ! (i - k)"
  assumes skipped: "1 \<le> k"
    and inside: "k + 1 < i"
    and guard: "\<forall>j \<in> {1..k}.
                  fst (node_range node) < fst (tok_range (tokens sc ! (i - 1 - j)))"
    and result: "handler opts sc node right st = Inr st'"
    and changed: "st' \<noteq> st"
  shows "tok_value paren = ''(''
    \<and> (\<exists>indentRight indentTarget rep.
          getIndentOfLine sc (indentCache st) (line (tok_start paren)) = Inr indentRight
          \<and> indentTarget \<noteq> indentRight
          \<and> reports st' = reports st @ [rep]
          \<and> rep_start rep = \<lparr>line = line (tok_start paren), column = 0\<rparr>
          \<and> rep_end rep = \<lparr>line = line (tok_start paren), column = length indentRight\<rparr>
          \<and> fix_range rep
              = (getIndexFromLoc sc \<lparr>line = line (tok_start paren), column = 0\<rparr>,
                 getIndexFromLoc sc
                   \<lparr>line = line (tok_start paren), column = length indentRight\<rparr>)
          \<and> fix_text rep = indentTarget
          \<and> indentCache st' = (indentCache st)(line (tok_start paren) \<mapsto> indentTarget))"
proof -
  have "tok_value (tokens sc ! (i - k)) = ''(''"
    unfolding k_def using skipped inside
    by (intro parensBefore_parens) (auto simp: k_def)
  then have paren: "tok_value paren = ''(''"
    by (simp add: paren_def)
  define r0 where "r0 = \<lparr>tokenRight = tokens sc ! (i - k),
                   tokenOperator = tokens sc ! (i - 1 - k),
                   tokenBeforeAll = getTokenBefore sc (node_range node),
                   tokenLeft = tokens sc ! (i - 2 - k)\<rparr>"
  have "handler_tokens sc node right = Inr (Some r0)"
    unfolding r0_def i_def k_def using inside guard
    by (intro handler_tokens_skips [OF ordered owner first]) (auto simp: i_def k_def)
  with handler_changed [OF result changed]
  have check: "handler_check opts sc node r0 st = Inr st'"
    by auto
  have r: "tokenRight r0 = paren"
    by (simp add: r0_def paren_def)
  from handler_check_changed [OF check changed] obtain indentRight indentTarget
    where "getIndentOfLine sc (indentCache st) (line (tok_start paren)) = Inr indentRight"
      and "indentTarget \<noteq> indentRight"
      and "st' = \<lparr>indentCache = (indentCache st)(line (tok_start paren) \<mapsto> indentTarget),
                  reports = reports st @ [makeReport opts sc paren indentRight indentTarget]\<rparr>"
    unfolding r by blast
  then have "getIndentOfLine sc (indentCache st) (line (tok_start paren)) = Inr indentRight
          \<and> indentTarget \<noteq> indentRight
          \<and> reports st' = reports st @ [makeReport opts sc paren indentRight indentTarget]
          \<and> rep_start (makeReport opts sc paren indentRight indentTarget)
              = \<lparr>line = line (tok_start paren), column = 0\<rparr>
          \<and> rep_end (makeReport opts sc paren indentRight indentTarget)
              = \<lparr>line = line (tok_start paren), column = length indentRight\<rparr>
          \<and> fix_range (makeReport opts sc paren indentRight indentTarget)
              = (getIndexFromLoc sc \<lparr>line = line (tok_start paren), column = 0\<rparr>,
                 getIndexFromLoc sc
                   \<lparr>line = line (tok_start paren), column = length indentRight\<rparr>)
          \<and> fix_text (makeReport opts sc paren indentRight indentTarget) = indentTarget
          \<and> indentCache st' = (indentCache st)(line (tok_start paren) \<mapsto> indentTarget)"
    by (simp add: makeReport_def Let_def)
  with paren show ?thesis
    by blast
qed

theorem handler_reports_on_paren_line_witness:
  "tok_value (tokens paren_source ! 2) = ''(''
   \<and> line (tok_start (tokens paren_source ! 2)) = 2
   \<and> getFirstToken paren_source paren_b = Some (mkToken ''Identifier'' ''b'' 8 3 0)
   \<and> handler (Some (Num 2)) paren_source paren_sum paren_b initialState
       = Inr \<lparr>indentCache = [2 \<mapsto> ''''],
              reports = [\<lparr>rep_start = \<lparr>line = 2, column = 0\<rparr>,
                          rep_end = \<lparr>line = 2, column = 2\<rparr>,
                          rep_messageId = ''wrongIndentation'', rep_expected = ''0 spaces'',
                          fix_range = (4, 6), fix_text = ''''\<rparr>]\<rparr>
   \<and> (\<exists>indentTarget rep.
          [rep] = reports \<lparr>indentCache = [2 \<mapsto> ''''],
              reports = [\<lparr>rep_start = \<lparr>line = 2, column = 0\<rparr>,
                          rep_end = \<lparr>line = 2, column = 2\<rparr>,
                          rep_messageId = ''wrongIndentation'', rep_expected = ''0 spaces'',
                          fix_range = (4, 6), fix_text = ''''\<rparr>]\<rparr>
          \<and> rep_start rep = \<lparr>line = 2, column = 0\<rparr>
          \<and> rep_end rep = \<lparr>line = 2, column = 2\<rparr>
          \<and> fix_range rep = (4, 6) \<and> fix_text rep = indentTarget)"
proof -
  let ?st' = "\<lparr>indentCache = [2 \<mapsto> ''''],
              reports = [\<lparr>rep_start = \<lparr>line = 2, column = 0\<rparr>,
                          rep_end = \<lparr>line = 2, column = 2\<rparr>,
                          rep_messageId = ''wrongIndentation'', rep_expected = ''0 spaces'',
                          fix_range = (4, 6), fix_text = ''''\<rparr>]\<rparr>"
  have o2: "tokensOrdered paren_source"
    by (simp add: tokensOrdered_def host_defs paren_source_def)
  have p2: "node_parent paren_b = Some paren_sum"
    by (simp add: paren_b_def mkNode_def)
  have f2: "getFirstToken paren_source paren_b = Some (mkToken ''Identifier'' ''b'' 8 3 0)"
    by (simp add: host_defs paren_source_def paren_b_def)
  have i2: "tokenIndexAt paren_source (fst (node_range paren_b)) = 3"
    by (simp add: host_defs paren_source_def paren_b_def)
  have k2: "parensBefore (tokens paren_source) 3 = 1"
    by (simp add: eval_nat_numeral host_defs paren_source_def)
  have s2: "(1::nat) \<le> 1" and n2: "(1::nat) + 1 < 3"
    by simp_all
  have g2: "\<forall>j \<in> {1..1}.
      fst (node_range paren_sum) < fst (tok_range (tokens paren_source ! (3 - 1 - j)))"
    by (simp add: eval_nat_numeral host_defs paren_source_def paren_sum_def)
  have run: "handler (Some (Num 2)) paren_source paren_sum paren_b initialState = Inr ?st'"
    by (simp add: rule_defs host_defs paren_source_def paren_sum_def paren_b_def)
  have ch: "?st' \<noteq> initialState"
    by (simp add: initialState_def)
  have tok: "tokens paren_source ! (3 - 1) = mkToken ''Punctuator'' ''('' 6 2 2"
    "tokens paren_source ! 2 = mkToken ''Punctuator'' ''('' 6 2 2"
    by (simp_all add: eval_nat_numeral tokens_def isComment_def paren_source_def mkToken_def)
  have idx: "getIndexFromLoc paren_source \<lparr>line = 2, column = 0\<rparr> = 4"
    "getIndexFromLoc paren_source \<lparr>line = 2, column = 2\<rparr> = 6"
    by (simp_all add: getIndexFromLoc_def paren_source_def)
  have ind: "getIndentOfLine paren_source (indentCache initialState) 2 = Inr ''  ''"
    by (simp add: rule_defs paren_source_def)
  from handler_reports_on_paren_line [OF o2 p2 f2 _ _ _ run ch, unfolded i2 k2, OF s2 n2 g2]
  have "\<exists>indentRight indentTarget rep.
          getIndentOfLine paren_source (indentCache initialState) 2 = Inr indentRight
          \<and> [rep] = reports ?st'
          \<and> rep_start rep = \<lparr>line = 2, column = 0\<rparr>
          \<and> rep_end rep = \<lparr>line = 2, column = length indentRight\<rparr>
          \<and> fix_range rep
              = (getIndexFromLoc paren_source \<lparr>line = 2, column = 0\<rparr>,
                 getIndexFromLoc paren_source \<lparr>line = 2, column = length indentRight\<rparr>)
          \<and> fix_text rep = indentTarget"
    unfolding tok by (auto simp: mkToken_def initialState_def)
  then have "\<exists>indentTarget rep.
          [rep] = reports ?st'
          \<and> rep_start rep = \<lparr>line = 2, column = 0\<rparr>
          \<and> rep_end rep = \<lparr>line = 2, column = 2\<rparr>
          \<and> fix_range rep = (4, 6) \<and> fix_text rep = indentTarget"
    unfolding ind by (auto simp: idx)
  with f2 run tok show ?thesis
    by (simp add: mkToken_def)
qed

end
